theory Spec2Isabelle
  imports Complex_Main
begin

section \<open>Data model of the player (src/components/Player.tsx)\<close>

text \<open>
  A JavaScript string is a sequence of UTF-16 code units and \<open>length\<close> counts code
  units; the punctuation of the subtitle splitter lies outside ASCII, so a string is a
  list of code units here. JavaScript numbers are modelled as exact reals: rounding of
  IEEE doubles, NaN and the infinities are outside the model.
\<close>

type_synonym jsstring = "nat list"
type_synonym number = real

text \<open>The \<open>Scene\<close> interface (types.ts); optional fields are options.\<close>

record Scene =
  scene_id :: jsstring
  narration :: jsstring
  visualPrompt :: jsstring
  imageUrl :: "string option"
  videoUrl :: "string option"
  audioUrl :: "string option"
  audioDuration :: "number option"

text \<open>The \<open>SubtitleChunk\<close> interface: fields \<open>text\<close>, \<open>start\<close>, \<open>end\<close>.\<close>

record SubtitleChunk =
  chunk_text :: jsstring
  chunk_start :: number
  chunk_end :: number

text \<open>
  Truthiness of an optional string (\<open>!!scene.videoUrl\<close>, \<open>if (scene.audioUrl)\<close>):
  \<open>undefined\<close> and the empty string are falsy.
\<close>

definition truthy :: "string option \<Rightarrow> bool" where
  "truthy u = (case u of None \<Rightarrow> False | Some s \<Rightarrow> s \<noteq> [])"

text \<open>
  \<open>scene.audioDuration || 5\<close> (lines 50, 135, 211): an absent duration and the
  falsy number 0 both give 5.
\<close>

definition sceneDuration :: "Scene \<Rightarrow> number" where
  "sceneDuration sc = (case audioDuration sc of None \<Rightarrow> 5 | Some d \<Rightarrow> if d = 0 then 5 else d)"

section \<open>Subtitle chunker (\<open>currentSubtitles\<close>, lines 47-78)\<close>

text \<open>The character class \<open>[\<dots>,.!?]\<close> of the split pattern: six full-width marks and four ASCII ones.\<close>

definition isPunct :: "nat \<Rightarrow> bool" where
  "isPunct c = (c \<in> {0xFF0C, 0x3002, 0xFF01, 0xFF1F, 0xFF1B, 0xFF1A, 44, 46, 33, 63})"

text \<open>White space and line terminators removed by \<open>String.prototype.trim\<close>.\<close>

definition isWhiteSpace :: "nat \<Rightarrow> bool" where
  "isWhiteSpace c = (c \<in> {9, 10, 11, 12, 13, 32, 0xA0, 0x1680, 0x2028, 0x2029, 0x202F, 0x205F, 0x3000, 0xFEFF}
     \<or> (0x2000 \<le> c \<and> c \<le> 0x200A))"

definition trim :: "jsstring \<Rightarrow> jsstring" where
  "trim s = rev (dropWhile isWhiteSpace (rev (dropWhile isWhiteSpace s)))"

text \<open>
  \<open>text.split(/([P]+)/)\<close> with a capturing group: the array alternates the text
  between punctuation runs (even indices, possibly empty) with the maximal runs
  themselves (odd indices); it starts and ends with a text piece, and the empty string
  gives \<open>[""]\<close>.
\<close>

function splitPunct :: "jsstring \<Rightarrow> jsstring list" where
  "splitPunct s =
     (let seg = takeWhile (\<lambda>c. \<not> isPunct c) s;
          rest = dropWhile (\<lambda>c. \<not> isPunct c) s
      in if rest = [] then [seg]
         else seg # takeWhile isPunct rest # splitPunct (dropWhile isPunct rest))"
  by pat_completeness auto

lemma dropWhile_shorter:
  assumes "xs \<noteq> []" and "P (hd xs)"
  shows "length (dropWhile P xs) < length xs"
proof (cases xs)
  case Nil
  with assms show ?thesis by simp
next
  case (Cons y ys)
  with assms have "dropWhile P xs = dropWhile P ys" by simp
  moreover have "length (dropWhile P ys) \<le> length ys" by (rule length_dropWhile_le)
  ultimately show ?thesis using Cons by simp
qed

termination splitPunct
proof (relation "measure length", goal_cases)
  case 1
  show ?case by simp
next
  case (2 s seg rest)
  then have ne: "rest \<noteq> []" and r: "rest = dropWhile (\<lambda>c. \<not> isPunct c) s" by simp_all
  from ne r have "isPunct (hd rest)" using hd_dropWhile [of "\<lambda>c. \<not> isPunct c" s] by auto
  with ne have "length (dropWhile isPunct rest) < length rest" by (rule dropWhile_shorter)
  also have "length rest \<le> length s" unfolding r by (rule length_dropWhile_le)
  finally show ?case by simp
qed

declare splitPunct.simps [simp del]

text \<open>
  The \<open>reduce\<close> callback (lines 53-59): at an even index whose trimmed piece is not
  empty, push the trimmed piece followed by \<open>arr[i+1] || ''\<close>.
\<close>

definition reduceStep :: "jsstring list \<Rightarrow> jsstring list \<Rightarrow> nat \<Rightarrow> jsstring list" where
  "reduceStep arr acc i =
     (let curr = arr ! i in
      if i mod 2 = 0 \<and> trim curr \<noteq> []
      then (let punct = (if Suc i < length arr then arr ! Suc i else [])
            in acc @ [trim curr @ punct])
      else acc)"

definition splitParts :: "jsstring \<Rightarrow> jsstring list" where
  "splitParts txt = (let arr = splitPunct txt in foldl (reduceStep arr) [] [0..<length arr])"

text \<open>Line 61: \<open>parts.length > 0 ? parts : [text]\<close>.\<close>

definition finalParts :: "jsstring \<Rightarrow> jsstring list" where
  "finalParts txt = (let parts = splitParts txt in if length parts > 0 then parts else [txt])"

text \<open>
  The \<open>forEach\<close> body (lines 67-75), on the pair of the \<open>chunks\<close> array and
  \<open>currentTime\<close>. The quotient, the product and the sums are those of exact reals; the
  code rounds each of them to a double, so its values agree with these up to rounding.
\<close>

definition chunkStep ::
  "nat \<Rightarrow> number \<Rightarrow> SubtitleChunk list \<times> number \<Rightarrow> jsstring \<Rightarrow> SubtitleChunk list \<times> number" where
  "chunkStep totalChars duration st part =
     (let chunks = fst st; currentTime = snd st;
          partDuration = (if totalChars > 0
                          then (real (length part) / real totalChars) * duration
                          else duration)
      in (chunks @ [\<lparr>chunk_text = part, chunk_start = currentTime,
                     chunk_end = currentTime + partDuration\<rparr>],
          currentTime + partDuration))"

definition chunksOf :: "jsstring list \<Rightarrow> number \<Rightarrow> SubtitleChunk list" where
  "chunksOf parts duration =
     (let totalChars = length (concat parts)
      in fst (foldl (chunkStep totalChars duration) ([], 0) parts))"

definition currentSubtitles :: "Scene option \<Rightarrow> SubtitleChunk list" where
  "currentSubtitles currentScene =
     (case currentScene of
        None \<Rightarrow> []
      | Some sc \<Rightarrow> chunksOf (finalParts (narration sc)) (sceneDuration sc))"

subsection \<open>Properties of the chunker\<close>

text \<open>
  For the proofs the loop is read as a recursive function: \<open>partDuration\<close> is the
  expression of line 68 and \<open>spans\<close> lists the chunks pushed from a running offset.
  \<open>foldl_chunkStep\<close> shows that the loop of the source computes exactly this.
\<close>

definition partDuration :: "nat \<Rightarrow> number \<Rightarrow> jsstring \<Rightarrow> number" where
  "partDuration totalChars duration part =
     (if totalChars > 0 then (real (length part) / real totalChars) * duration else duration)"

fun spans :: "nat \<Rightarrow> number \<Rightarrow> number \<Rightarrow> jsstring list \<Rightarrow> SubtitleChunk list" where
  "spans tc d t [] = []"
| "spans tc d t (p # ps) =
     \<lparr>chunk_text = p, chunk_start = t, chunk_end = t + partDuration tc d p\<rparr>
       # spans tc d (t + partDuration tc d p) ps"

lemma foldl_chunkStep:
  "foldl (chunkStep tc d) (cs, t) ps =
     (cs @ spans tc d t ps, t + sum_list (map (partDuration tc d) ps))"
  by (induction ps arbitrary: cs t) (simp_all add: chunkStep_def partDuration_def Let_def add.assoc)

lemma chunksOf_spans: "chunksOf ps d = spans (length (concat ps)) d 0 ps"
  by (simp add: chunksOf_def Let_def foldl_chunkStep)

lemma length_spans [simp]: "length (spans tc d t ps) = length ps"
  by (induction ps arbitrary: t) simp_all

lemma spans_text: "i < length ps \<Longrightarrow> chunk_text (spans tc d t ps ! i) = ps ! i"
proof (induction ps arbitrary: t i)
  case Nil then show ?case by simp
next
  case (Cons p ps) then show ?case by (cases i) simp_all
qed

lemma spans_start:
  "i < length ps \<Longrightarrow>
   chunk_start (spans tc d t ps ! i) = t + sum_list (map (partDuration tc d) (take i ps))"
proof (induction ps arbitrary: t i)
  case Nil then show ?case by simp
next
  case (Cons p ps) then show ?case by (cases i) (simp_all add: add.assoc)
qed

lemma spans_end:
  "i < length ps \<Longrightarrow>
   chunk_end (spans tc d t ps ! i) = chunk_start (spans tc d t ps ! i) + partDuration tc d (ps ! i)"
proof (induction ps arbitrary: t i)
  case Nil then show ?case by simp
next
  case (Cons p ps) then show ?case by (cases i) simp_all
qed

lemma spans_contiguous:
  "Suc i < length ps \<Longrightarrow>
   chunk_start (spans tc d t ps ! Suc i) = chunk_end (spans tc d t ps ! i)"
  by (simp add: spans_end spans_start take_Suc_conv_app_nth)

lemma spans_last_end:
  "ps \<noteq> [] \<Longrightarrow> chunk_end (last (spans tc d t ps)) = t + sum_list (map (partDuration tc d) ps)"
proof (induction ps arbitrary: t)
  case Nil then show ?case by simp
next
  case (Cons p ps)
  show ?case
  proof (cases "ps = []")
    case True then show ?thesis by simp
  next
    case False
    then have "spans tc d (t + partDuration tc d p) ps \<noteq> []" by (cases ps) simp_all
    with Cons.IH [OF False] show ?thesis by (simp add: add.assoc)
  qed
qed

lemma sum_partDuration_gen:
  "0 < tc \<Longrightarrow>
   sum_list (map (partDuration tc d) ps) = real (sum_list (map length ps)) * d / real tc"
  by (induction ps) (simp_all add: partDuration_def add_divide_distrib distrib_right)

lemma sum_partDuration:
  assumes "0 < length (concat ps)"
  shows "sum_list (map (partDuration (length (concat ps)) d) ps) = d"
proof -
  define n where "n = length (concat ps)"
  have pos: "0 < n" using assms by (simp only: n_def)
  have "sum_list (map length ps) = n" by (simp add: n_def length_concat)
  with sum_partDuration_gen [OF pos, of d ps] pos
  have "sum_list (map (partDuration n d) ps) = d" by simp
  then show ?thesis by (simp only: n_def)
qed

lemma partDuration_nonneg: "0 \<le> d \<Longrightarrow> 0 \<le> partDuration tc d p"
  by (simp add: partDuration_def)

lemma spans_end_lower:
  "0 \<le> d \<Longrightarrow> c \<in> set (spans tc d t ps) \<Longrightarrow> t \<le> chunk_start c \<and> chunk_start c \<le> chunk_end c"
proof (induction ps arbitrary: t)
  case Nil then show ?case by simp
next
  case (Cons p ps)
  have pd: "0 \<le> partDuration tc d p" using Cons.prems(1) by (rule partDuration_nonneg)
  from Cons.prems(2) consider "c = \<lparr>chunk_text = p, chunk_start = t, chunk_end = t + partDuration tc d p\<rparr>"
    | "c \<in> set (spans tc d (t + partDuration tc d p) ps)" by auto
  then show ?case
  proof cases
    case 1 with pd show ?thesis by simp
  next
    case 2
    from Cons.IH [OF Cons.prems(1) 2] pd show ?thesis by simp
  qed
qed

lemma spans_sorted: "0 \<le> d \<Longrightarrow> sorted (map chunk_end (spans tc d t ps))"
proof (induction ps arbitrary: t)
  case Nil then show ?case by simp
next
  case (Cons p ps)
  have "t + partDuration tc d p \<le> chunk_end c"
    if "c \<in> set (spans tc d (t + partDuration tc d p) ps)" for c
    using spans_end_lower [OF Cons.prems that] by simp
  with Cons.IH [OF Cons.prems] show ?case by auto
qed

lemma reduceStep_nonempty:
  "\<forall>p \<in> set acc. p \<noteq> [] \<Longrightarrow> \<forall>p \<in> set (reduceStep arr acc i). p \<noteq> []"
  by (simp add: reduceStep_def Let_def)

lemma foldl_reduceStep_nonempty:
  "\<forall>p \<in> set acc. p \<noteq> [] \<Longrightarrow> \<forall>p \<in> set (foldl (reduceStep arr) acc js). p \<noteq> []"
proof (induction js arbitrary: acc)
  case Nil then show ?case by simp
next
  case (Cons i js)
  from Cons.prems have "\<forall>p \<in> set (reduceStep arr acc i). p \<noteq> []" by (rule reduceStep_nonempty)
  then show ?case using Cons.IH by simp
qed

lemma splitParts_nonempty: "p \<in> set (splitParts s) \<Longrightarrow> p \<noteq> []"
  using foldl_reduceStep_nonempty [of "[]" "splitPunct s" "[0..<length (splitPunct s)]"]
  by (simp add: splitParts_def Let_def)

lemma finalParts_nonempty: "finalParts s \<noteq> []"
  by (simp add: finalParts_def Let_def)

lemma finalParts_degenerate:
  assumes "length (concat (finalParts s)) = 0"
  shows "finalParts s = [s]" and "s = []"
proof -
  have emp: "splitParts s = []"
  proof (rule ccontr)
    assume ne: "splitParts s \<noteq> []"
    then obtain p ps where ps: "splitParts s = p # ps" by (cases "splitParts s") auto
    then have "p \<noteq> []" using splitParts_nonempty [of p s] by simp
    moreover from ne ps have "finalParts s = p # ps" by (simp add: finalParts_def Let_def)
    ultimately show False using assms by simp
  qed
  then show "finalParts s = [s]" by (simp add: finalParts_def Let_def)
  with assms show "s = []" by simp
qed

lemma sum_finalParts:
  "sum_list (map (partDuration (length (concat (finalParts s))) d) (finalParts s)) = d"
proof (cases "0 < length (concat (finalParts s))")
  case True then show ?thesis by (rule sum_partDuration)
next
  case False
  then have z: "length (concat (finalParts s)) = 0" by simp
  from finalParts_degenerate(1) [OF z] z show ?thesis by (simp add: partDuration_def)
qed

text \<open>
  Two scenes to run the chunker on: the narration \<open>"A. B!"\<close> with a duration of 4
  seconds, and an empty narration without a duration.
\<close>

definition sceneAB :: Scene where
  "sceneAB = \<lparr>scene_id = [], narration = [65, 46, 32, 66, 33], visualPrompt = [],
     imageUrl = None, videoUrl = None, audioUrl = None, audioDuration = Some 4\<rparr>"

definition sceneEmpty :: Scene where
  "sceneEmpty = \<lparr>scene_id = [], narration = [], visualPrompt = [],
     imageUrl = None, videoUrl = None, audioUrl = None, audioDuration = None\<rparr>"

lemma finalParts_AB: "finalParts [65, 46, 32, 66, 33] = [[65, 46], [66, 33]]"
  by (simp add: finalParts_def splitParts_def reduceStep_def trim_def isWhiteSpace_def
      splitPunct.simps isPunct_def upt_rec)

lemma finalParts_Nil: "finalParts [] = [[]]"
  by (simp add: finalParts_def splitParts_def reduceStep_def trim_def splitPunct.simps)

lemma subtitles_AB:
  "currentSubtitles (Some sceneAB) =
     [\<lparr>chunk_text = [65, 46], chunk_start = 0, chunk_end = 2\<rparr>,
      \<lparr>chunk_text = [66, 33], chunk_start = 2, chunk_end = 4\<rparr>]"
  by (simp add: currentSubtitles_def sceneAB_def sceneDuration_def finalParts_AB
      chunksOf_def chunkStep_def)

lemma subtitles_Empty:
  "currentSubtitles (Some sceneEmpty) = [\<lparr>chunk_text = [], chunk_start = 0, chunk_end = 5\<rparr>]"
  by (simp add: currentSubtitles_def sceneEmpty_def sceneDuration_def finalParts_Nil
      chunksOf_def chunkStep_def)

lemma sceneAB_fields:
  "narration sceneAB = [65, 46, 32, 66, 33]" "sceneDuration sceneAB = 4"
  "audioDuration sceneAB = Some 4"
  by (simp_all add: sceneAB_def sceneDuration_def)

lemma sceneEmpty_fields:
  "narration sceneEmpty = []" "audioDuration sceneEmpty = None" "sceneDuration sceneEmpty = 5"
  by (simp_all add: sceneEmpty_def sceneDuration_def)

text \<open>
  Claim C1, as amended. Let \<open>D\<close> be the scene's \<open>audioDuration || 5\<close>: the duration
  when it is present and not 0, and 5 otherwise. For every narration text there is a
  first chunk and it starts at 0, every later chunk starts where its predecessor ends,
  and the last chunk ends at \<open>D\<close> (in the exact arithmetic of this model; the doubles of
  the code agree with it only up to rounding). For \<open>D \<ge> 0\<close> the ends are non-decreasing
  and no chunk ends before it starts.
\<close>

theorem chunks_partition_duration:
  "let cs = currentSubtitles (Some sc); D = sceneDuration sc in
     cs \<noteq> [] \<and> chunk_start (hd cs) = 0
     \<and> (\<forall>i. Suc i < length cs \<longrightarrow> chunk_start (cs ! Suc i) = chunk_end (cs ! i))
     \<and> (0 \<le> D \<longrightarrow> sorted (map chunk_end cs) \<and> (\<forall>c \<in> set cs. chunk_start c \<le> chunk_end c))
     \<and> chunk_end (last cs) = D
     \<and> (audioDuration sc = None \<longrightarrow> D = 5)
     \<and> (\<forall>d. audioDuration sc = Some d \<and> d \<noteq> 0 \<longrightarrow> D = d)"
proof -
  define ps where "ps = finalParts (narration sc)"
  define D where "D = sceneDuration sc"
  define tc where "tc = length (concat ps)"
  define cs where "cs = spans tc D 0 ps"
  have cs: "currentSubtitles (Some sc) = cs"
    by (simp add: currentSubtitles_def chunksOf_spans cs_def ps_def D_def tc_def)
  have ne: "ps \<noteq> []" unfolding ps_def by (rule finalParts_nonempty)
  then have a: "cs \<noteq> []" unfolding cs_def by (cases ps) simp_all
  have b: "chunk_start (hd cs) = 0" using ne unfolding cs_def by (cases ps) simp_all
  have c: "\<forall>i. Suc i < length cs \<longrightarrow> chunk_start (cs ! Suc i) = chunk_end (cs ! i)"
    unfolding cs_def by (simp add: spans_contiguous)
  have d: "0 \<le> D \<longrightarrow> sorted (map chunk_end cs) \<and> (\<forall>c \<in> set cs. chunk_start c \<le> chunk_end c)"
    unfolding cs_def using spans_sorted spans_end_lower by blast
  have e: "chunk_end (last cs) = D"
    unfolding cs_def using spans_last_end [OF ne, of tc D 0] sum_finalParts [of "narration sc" D]
    by (simp add: tc_def ps_def)
  have f: "audioDuration sc = None \<longrightarrow> D = 5" by (simp add: D_def sceneDuration_def)
  have g: "\<forall>d. audioDuration sc = Some d \<and> d \<noteq> 0 \<longrightarrow> D = d"
    by (simp add: D_def sceneDuration_def)
  from a b c d e f g show ?thesis unfolding cs D_def [symmetric] Let_def by blast
qed

theorem chunks_partition_duration_witness:
  "currentSubtitles (Some sceneAB) =
     [\<lparr>chunk_text = [65, 46], chunk_start = 0, chunk_end = 2\<rparr>,
      \<lparr>chunk_text = [66, 33], chunk_start = 2, chunk_end = 4\<rparr>]
   \<and> 0 \<le> sceneDuration sceneAB
   \<and> sorted (map chunk_end (currentSubtitles (Some sceneAB)))
   \<and> chunk_end (last (currentSubtitles (Some sceneAB))) = sceneDuration sceneAB
   \<and> audioDuration sceneAB = Some 4
   \<and> audioDuration sceneEmpty = None
   \<and> chunk_end (last (currentSubtitles (Some sceneEmpty))) = 5"
  using chunks_partition_duration [of sceneAB] chunks_partition_duration [of sceneEmpty]
  by (simp add: subtitles_AB subtitles_Empty sceneAB_fields sceneEmpty_fields)

text \<open>
  The claim as it was written fails for a negative duration, where the ends decrease,
  and for a duration of 0, where the chunks cover \<open>[0, 5]\<close> and not \<open>[0, 0]\<close>.
\<close>

definition sceneNegative :: Scene where
  "sceneNegative = \<lparr>scene_id = [], narration = [65, 46, 32, 66, 33], visualPrompt = [],
     imageUrl = None, videoUrl = None, audioUrl = None, audioDuration = Some (- 2)\<rparr>"

definition sceneZero :: Scene where
  "sceneZero = \<lparr>scene_id = [], narration = [65, 46, 32, 66, 33], visualPrompt = [],
     imageUrl = None, videoUrl = None, audioUrl = None, audioDuration = Some 0\<rparr>"

theorem chunks_partition_duration_counterexample:
  "audioDuration sceneNegative = Some (- 2)
   \<and> map chunk_end (currentSubtitles (Some sceneNegative)) = [- 1, - 2]
   \<and> \<not> sorted (map chunk_end (currentSubtitles (Some sceneNegative)))
   \<and> audioDuration sceneZero = Some 0
   \<and> map chunk_end (currentSubtitles (Some sceneZero)) = [5 / 2, 5]
   \<and> chunk_end (last (currentSubtitles (Some sceneZero))) \<noteq> 0"
  by (simp add: currentSubtitles_def sceneNegative_def sceneZero_def sceneDuration_def
      finalParts_AB chunksOf_def chunkStep_def Let_def)

text \<open>
  Claim C2. When the segments of the punctuation split have lengths summing to
  \<open>L > 0\<close>, chunk \<open>i\<close> carries segment \<open>i\<close> and lasts \<open>D * l\<^sub>i / L\<close>; when
  \<open>L = 0\<close> there is a single chunk, holding the narration and spanning \<open>[0, D]\<close>.
\<close>

theorem chunk_duration_proportional:
  "let parts = finalParts (narration sc); L = length (concat parts);
       D = sceneDuration sc; cs = currentSubtitles (Some sc) in
     length cs = length parts
     \<and> (0 < L \<longrightarrow> (\<forall>i < length parts. chunk_text (cs ! i) = parts ! i
            \<and> chunk_end (cs ! i) - chunk_start (cs ! i) = D * real (length (parts ! i)) / real L))
     \<and> (L = 0 \<longrightarrow> cs = [\<lparr>chunk_text = narration sc, chunk_start = 0, chunk_end = D\<rparr>])"
proof -
  define ps where "ps = finalParts (narration sc)"
  define D where "D = sceneDuration sc"
  define tc where "tc = length (concat ps)"
  define cs where "cs = spans tc D 0 ps"
  have cs: "currentSubtitles (Some sc) = cs"
    by (simp add: currentSubtitles_def chunksOf_spans cs_def ps_def D_def tc_def)
  have a: "length cs = length ps" by (simp add: cs_def)
  have b: "chunk_text (cs ! i) = ps ! i
      \<and> chunk_end (cs ! i) - chunk_start (cs ! i) = D * real (length (ps ! i)) / real tc"
    if "0 < tc" "i < length ps" for i
    using that by (simp add: cs_def spans_text spans_end partDuration_def)
  have c: "cs = [\<lparr>chunk_text = narration sc, chunk_start = 0, chunk_end = D\<rparr>]" if "tc = 0"
  proof -
    from that have "length (concat (finalParts (narration sc))) = 0" by (simp add: tc_def ps_def)
    then have "ps = [narration sc]" unfolding ps_def by (rule finalParts_degenerate(1))
    with that show ?thesis by (simp add: cs_def partDuration_def)
  qed
  from a b c show ?thesis
    unfolding cs Let_def ps_def [symmetric] D_def [symmetric] tc_def [symmetric] by blast
qed

theorem chunk_duration_proportional_witness:
  "0 < length (concat (finalParts (narration sceneAB)))
   \<and> (1::nat) < length (finalParts (narration sceneAB))
   \<and> chunk_end (currentSubtitles (Some sceneAB) ! 1) - chunk_start (currentSubtitles (Some sceneAB) ! 1)
       = sceneDuration sceneAB * real (length (finalParts (narration sceneAB) ! 1))
           / real (length (concat (finalParts (narration sceneAB))))
   \<and> length (concat (finalParts (narration sceneEmpty))) = 0
   \<and> currentSubtitles (Some sceneEmpty)
       = [\<lparr>chunk_text = narration sceneEmpty, chunk_start = 0, chunk_end = sceneDuration sceneEmpty\<rparr>]"
  using chunk_duration_proportional [of sceneAB] chunk_duration_proportional [of sceneEmpty]
  by (simp add: subtitles_AB subtitles_Empty finalParts_AB finalParts_Nil sceneAB_fields
      sceneEmpty_fields)

section \<open>Media handles and the frame renderer (\<open>renderFrame\<close>, \<open>drawImageProp\<close>)\<close>

text \<open>
  The attributes of the DOM elements that the player reads or writes. An element is
  created once per component (lines 25-30) and is never null; the canvas ref is null
  until the canvas is attached.
\<close>

record VideoElement =
  video_src :: "string option"
  video_readyState :: nat
  video_paused :: bool
  videoWidth :: number
  videoHeight :: number

record ImageElement =
  img_src :: "string option"
  img_complete :: bool
  naturalWidth :: number
  naturalHeight :: number
  img_broken :: bool

record AudioElement =
  audio_src :: "string option"
  audio_paused :: bool
  audio_currentTime :: number

record Canvas =
  canvas_width :: number
  canvas_height :: number
  canvas_has2d :: bool

datatype visual = VideoSource VideoElement | ImageSource ImageElement

text \<open>The calls issued on the 2D context, in order.\<close>

datatype canvas_op =
    FillRect string number number number number
  | DrawImage visual number number number number
  | StrokeText jsstring number number
  | FillText jsstring number number

datatype dom_error = InvalidStateError

text \<open>
  Platform contract of \<open>CanvasRenderingContext2D.drawImage\<close> (HTML standard, "check
  the usability of the image argument"): an image element in the broken state makes the
  call throw \<open>InvalidStateError\<close>; every other unusable source draws nothing and returns.
\<close>

definition ctx_drawImage ::
  "visual \<Rightarrow> number \<Rightarrow> number \<Rightarrow> number \<Rightarrow> number \<Rightarrow> dom_error + canvas_op list" where
  "ctx_drawImage img dx dy dw dh =
     (case img of
        ImageSource i \<Rightarrow> if img_broken i then Inl InvalidStateError
                         else Inr [DrawImage img dx dy dw dh]
      | VideoSource v \<Rightarrow> Inr [DrawImage img dx dy dw dh])"

text \<open>\<open>drawImageProp\<close> (lines 349-381); \<open>!imgW\<close> holds for the number 0.\<close>

definition drawImageProp ::
  "visual \<Rightarrow> number \<Rightarrow> number \<Rightarrow> number \<Rightarrow> number \<Rightarrow> number \<Rightarrow> number \<Rightarrow> number
     \<Rightarrow> dom_error + canvas_op list" where
  "drawImageProp img x y w h offsetX offsetY zoomFactor =
     (let imgW = (case img of VideoSource v \<Rightarrow> videoWidth v | ImageSource i \<Rightarrow> naturalWidth i);
          imgH = (case img of VideoSource v \<Rightarrow> videoHeight v | ImageSource i \<Rightarrow> naturalHeight i)
      in if imgW = 0 \<or> imgH = 0 then Inr []
         else (let baseScale = max (w / imgW) (h / imgH);
                   scale = baseScale * zoomFactor;
                   nw = imgW * scale;
                   nh = imgH * scale;
                   xPos = x + (w - nw) * offsetX;
                   yPos = y + (h - nh) * offsetY
               in ctx_drawImage img xPos yPos nw nh))"

text \<open>The Ken Burns zoom of lines 134-140, from the clock and the scene start stamp.\<close>

definition kenBurnsScale :: "Scene option \<Rightarrow> number \<Rightarrow> number \<Rightarrow> number" where
  "kenBurnsScale currentScene now sceneStartTime =
     (let duration = (case currentScene of None \<Rightarrow> 5 | Some sc \<Rightarrow> sceneDuration sc) * 1000;
          elapsed = now - sceneStartTime;
          progress = min (elapsed / duration) 1.0
      in 1.0 + progress * 0.15)"

text \<open>Step 3 of \<open>renderFrame\<close> (lines 152-172): the subtitle active at the narration time.\<close>

definition subtitleOps ::
  "Canvas \<Rightarrow> Scene option \<Rightarrow> bool \<Rightarrow> number \<Rightarrow> canvas_op list" where
  "subtitleOps canvas currentScene playing audioTime =
     (if currentScene \<noteq> None \<and> playing
      then (case find (\<lambda>s. audioTime \<ge> chunk_start s \<and> audioTime \<le> chunk_end s)
                   (currentSubtitles currentScene) of
              None \<Rightarrow> []
            | Some activeSub \<Rightarrow>
                (let x = canvas_width canvas / 2; y = canvas_height canvas - 80
                 in [StrokeText (chunk_text activeSub) x y, FillText (chunk_text activeSub) x y]))
      else [])"

text \<open>
  \<open>renderFrame\<close> (lines 107-175). The result is the error thrown, or the calls made on
  the context together with whether the next animation frame was requested.
\<close>

definition renderFrame ::
  "Canvas option \<Rightarrow> VideoElement \<Rightarrow> ImageElement \<Rightarrow> Scene option \<Rightarrow> bool \<Rightarrow> number \<Rightarrow> number
     \<Rightarrow> number \<Rightarrow> dom_error + (canvas_op list \<times> bool)" where
  "renderFrame canvasRef video img currentScene playing now sceneStartTime audioTime =
     (case canvasRef of
        None \<Rightarrow> Inr ([], False)
      | Some canvas \<Rightarrow>
          if \<not> canvas_has2d canvas then Inr ([], False)
          else
            (let cw = canvas_width canvas; ch = canvas_height canvas;
                 clear = [FillRect ''#000'' 0 0 cw ch];
                 videoReady = (video_readyState video \<ge> 2);
                 imgReady = (img_complete img \<and> naturalWidth img > 0);
                 drawn =
                   (if videoReady \<and> \<not> video_paused video
                    then drawImageProp (VideoSource video) 0 0 cw ch 0.5 0.5 1.0
                    else if imgReady
                    then drawImageProp (ImageSource img) 0 0 cw ch 0.5 0.5
                           (kenBurnsScale currentScene now sceneStartTime)
                    else Inr [FillRect ''#111'' 0 0 cw ch])
             in case drawn of
                  Inl e \<Rightarrow> Inl e
                | Inr ops \<Rightarrow>
                    Inr (clear @ ops @ subtitleOps canvas currentScene playing audioTime, True)))"


section \<open>Playback sequencer and recording (\<open>Player\<close> component state)\<close>

type_synonym blob = "nat list"

datatype recording_state = Inactive | Recording | Paused
datatype audio_context_state = Suspended | Running | Closed
datatype status_msg = NoStatus | RecordingStatus | DownloadStarted

text \<open>
  A \<open>MediaRecorder\<close>: its \<open>state\<close>, the mime type it was built with, whether an
  \<open>onstop\<close> handler is assigned, and whether its \<open>stop\<close> event is still to be delivered.
\<close>

record MediaRecorder =
  rec_state :: recording_state
  rec_mimeType :: string
  rec_onstop :: bool
  rec_stopPending :: bool

text \<open>
  A pending \<open>setTimeout\<close>. A callback is a closure of the render that created it: for
  \<open>handleNext\<close> the captured value of \<open>isRecording\<close> is recorded, since
  \<open>finishPlayback\<close> reads it (line 248). \<open>timer_owned\<close> marks the timer that the cleanup
  of the scene effect clears (line 215); the timer of the \<open>catch\<close> branch (line 211) is
  not returned to any cleanup.
\<close>

datatype timer_callback = CallHandleNext bool | ClearStatusMsg

record Timer =
  timer_callback :: timer_callback
  timer_delay :: number
  timer_owned :: bool

text \<open>
  The component: its four state variables, its refs, and what the event loop holds for
  it: the pending timers, the \<open>isRecording\<close> value captured by the registered \<open>ended\<close>
  listener, the alerts shown and the files offered for download. \<open>requestRef\<close> says
  whether an animation frame is requested. The function requested is a \<open>renderFrame\<close>
  closure: \<open>loopScene\<close> and \<open>loopPlaying\<close> are the \<open>currentScene\<close> and \<open>isPlaying\<close> it
  captured, and \<open>canvasOps\<close> are the calls its last tick made on the canvas.
\<close>

record Player =
  currentSceneIndex :: nat
  isPlaying :: bool
  isRecording :: bool
  statusMsg :: status_msg
  videoRef :: VideoElement
  imgRef :: ImageElement
  narrationRef :: AudioElement
  bgmRef :: AudioElement
  canvasRef :: "Canvas option"
  requestRef :: bool
  sceneStartTimeRef :: number
  audioCtxRef :: "audio_context_state option"
  destRef :: bool
  mediaRecorderRef :: "MediaRecorder option"
  recordedChunksRef :: "blob list"
  timers :: "Timer list"
  endedListenerRecording :: bool
  loopScene :: "Scene option"
  loopPlaying :: bool
  canvasOps :: "canvas_op list"
  alerts :: nat
  downloads :: "blob list"

text \<open>What the environment decides during one handler: the clock and the platform calls that can fail.\<close>

record Env =
  env_now :: number
  narrationPlayOk :: bool
  videoPlayOk :: bool
  bgmPlayOk :: bool
  vp9Supported :: bool
  recorderCtorOk :: bool

text \<open>Line 44: \<open>scenes[currentSceneIndex]\<close>, \<open>undefined\<close> out of range.\<close>

definition currentScene :: "Scene list \<Rightarrow> Player \<Rightarrow> Scene option" where
  "currentScene scenes st =
     (if currentSceneIndex st < length scenes then Some (scenes ! currentSceneIndex st) else None)"

text \<open>
  \<open>stopRecording\<close> (lines 322-340): \<open>stop()\<close> on a recorder that is not inactive, then
  the \<open>onstop\<close> handler is assigned; the platform delivers the last fragment and the
  \<open>stop\<close> event afterwards.
\<close>

definition stopRecording :: "Player \<Rightarrow> Player" where
  "stopRecording st =
     (case mediaRecorderRef st of
        None \<Rightarrow> st
      | Some r \<Rightarrow>
          if rec_state r \<noteq> Inactive
          then st\<lparr>mediaRecorderRef :=
                    Some (r\<lparr>rec_state := Inactive, rec_onstop := True, rec_stopPending := True\<rparr>)\<rparr>
          else st)"

text \<open>The \<open>onstop\<close> handler (lines 325-338): one Blob of all buffered fragments, downloaded.\<close>

definition onstopHandler :: "Player \<Rightarrow> Player" where
  "onstopHandler st =
     st\<lparr>downloads := downloads st @ [concat (recordedChunksRef st)],
        isRecording := False,
        statusMsg := DownloadStarted,
        timers := timers st @ [\<lparr>timer_callback = ClearStatusMsg, timer_delay = 3000,
                                  timer_owned = False\<rparr>]\<rparr>"

text \<open>\<open>recorder.ondataavailable\<close> (lines 303-305).\<close>

definition ondataavailable :: "blob \<Rightarrow> Player \<Rightarrow> Player" where
  "ondataavailable e st =
     (if length e > 0 then st\<lparr>recordedChunksRef := recordedChunksRef st @ [e]\<rparr> else st)"

text \<open>
  \<open>finishPlayback\<close> (lines 241-251), as the closure of a render in which \<open>isRecording\<close>
  had the value \<open>capturedRecording\<close>.
\<close>

definition finishPlayback :: "bool \<Rightarrow> Player \<Rightarrow> Player" where
  "finishPlayback capturedRecording st =
     (let st1 = st\<lparr>isPlaying := False,
                    bgmRef := (bgmRef st)\<lparr>audio_paused := True\<rparr>,
                    narrationRef := (narrationRef st)\<lparr>audio_paused := True\<rparr>,
                    videoRef := (videoRef st)\<lparr>video_paused := True\<rparr>,
                    requestRef := False\<rparr>
      in if capturedRecording then stopRecording st1 else st1)"

text \<open>\<open>handleNext\<close> (lines 229-239): the state updater and the finish it triggers.\<close>

definition handleNext :: "Scene list \<Rightarrow> bool \<Rightarrow> Player \<Rightarrow> Player" where
  "handleNext scenes capturedRecording st =
     (let prev = currentSceneIndex st; next = prev + 1
      in if next < length scenes
         then st\<lparr>currentSceneIndex := next\<rparr>
         else (finishPlayback capturedRecording st)\<lparr>currentSceneIndex := prev\<rparr>)"

text \<open>
  The scene effect (lines 178-218), run after a render whose \<open>currentSceneIndex\<close> or
  \<open>isPlaying\<close> changed. The outcome of \<open>narration.play()\<close> is taken at once: a
  narration that starts is playing, one that is rejected stays paused and the timer of
  the \<open>catch\<close> branch is scheduled. How far an image or a clip has loaded
  (\<open>readyState\<close>, \<open>complete\<close>, the natural sizes) is the platform's to change and is
  left as it is.
\<close>

definition sceneEffect :: "Scene list \<Rightarrow> Env \<Rightarrow> Player \<Rightarrow> Player" where
  "sceneEffect scenes env st =
     (if \<not> isPlaying st \<or> \<not> currentSceneIndex st < length scenes then st
      else
        (let scene = scenes ! currentSceneIndex st;
             st1 = st\<lparr>sceneStartTimeRef := env_now env\<rparr>;
             hasVideo = truthy (videoUrl scene);
             st2 =
               (if hasVideo
                then st1\<lparr>videoRef := (videoRef st1)\<lparr>video_src := videoUrl scene,
                                                     video_paused := \<not> videoPlayOk env\<rparr>,
                         imgRef := (imgRef st1)\<lparr>img_src := None\<rparr>\<rparr>
                else if truthy (imageUrl scene)
                then st1\<lparr>imgRef := (imgRef st1)\<lparr>img_src := imageUrl scene\<rparr>,
                         videoRef := (videoRef st1)\<lparr>video_paused := True, video_src := None\<rparr>\<rparr>
                else st1\<lparr>imgRef := (imgRef st1)\<lparr>img_src := None\<rparr>,
                         videoRef := (videoRef st1)\<lparr>video_paused := True\<rparr>\<rparr>)
         in if truthy (audioUrl scene)
            then
              (if narrationPlayOk env
               then st2\<lparr>narrationRef := \<lparr>audio_src = audioUrl scene, audio_paused = False,
                                           audio_currentTime = 0\<rparr>\<rparr>
               else st2\<lparr>narrationRef := \<lparr>audio_src = audioUrl scene, audio_paused = True,
                                           audio_currentTime = 0\<rparr>,
                        timers := timers st2 @
                          [\<lparr>timer_callback = CallHandleNext (isRecording st2),
                            timer_delay = sceneDuration scene * 1000, timer_owned = False\<rparr>]\<rparr>)
            else st2\<lparr>timers := timers st2 @
                        [\<lparr>timer_callback = CallHandleNext (isRecording st2),
                          timer_delay = 5000, timer_owned = True\<rparr>]\<rparr>))"

text \<open>The cleanup returned at line 215: \<open>clearTimeout\<close> of the timer the effect owns.\<close>

definition sceneCleanup :: "Player \<Rightarrow> Player" where
  "sceneCleanup st = st\<lparr>timers := filter (\<lambda>t. \<not> timer_owned t) (timers st)\<rparr>"

text \<open>
  The effects React runs after a handler changed the state from \<open>old\<close> to \<open>st\<close>: the
  scene effect when \<open>currentSceneIndex\<close> or \<open>isPlaying\<close> changed (dependencies of line
  218), and the \<open>ended\<close> listener is registered anew, with the closures of this render,
  when \<open>currentSceneIndex\<close> changed (dependencies of line 227; the scene list is fixed).
\<close>

definition runEffects :: "Scene list \<Rightarrow> Env \<Rightarrow> Player \<Rightarrow> Player \<Rightarrow> Player" where
  "runEffects scenes env old st =
     (let st1 = (if currentSceneIndex st \<noteq> currentSceneIndex old \<or> isPlaying st \<noteq> isPlaying old
                 then sceneEffect scenes env (sceneCleanup st) else st)
      in if currentSceneIndex st \<noteq> currentSceneIndex old
         then st1\<lparr>endedListenerRecording := isRecording st\<rparr> else st1)"

text \<open>
  \<open>startPlayback\<close> (lines 254-320). A new \<open>AudioContext\<close> is created with its
  destination node; a suspended one is resumed, and the handler is taken to run to its
  end before the next render. \<open>startLoop\<close> is its tail, lines 317-319: the frame it
  requests runs the \<open>renderFrame\<close> of the render in which the button was clicked, so
  that closure holds the \<open>currentScene\<close> and the \<open>isPlaying\<close> of the state before the
  click; \<open>renderFrame\<close> requests itself again (line 174) and no other code requests a
  frame.
\<close>

definition startLoop :: "Env \<Rightarrow> Scene option \<Rightarrow> bool \<Rightarrow> Player \<Rightarrow> Player" where
  "startLoop env capturedScene capturedPlaying st =
     st\<lparr>requestRef := True, loopScene := capturedScene, loopPlaying := capturedPlaying,
        bgmRef := (bgmRef st)\<lparr>audio_currentTime := 0, audio_paused := \<not> bgmPlayOk env\<rparr>\<rparr>"

definition startPlayback :: "Scene list \<Rightarrow> bool \<Rightarrow> Env \<Rightarrow> Player \<Rightarrow> Player" where
  "startPlayback scenes recording env st =
     (let capturedScene = currentScene scenes st; capturedPlaying = isPlaying st;
          st1 = st\<lparr>isPlaying := True, currentSceneIndex := 0, isRecording := recording,
                    statusMsg := (if recording then RecordingStatus else NoStatus),
                    recordedChunksRef := []\<rparr>
      in if recording
         then
           (let st2 =
                  (if audioCtxRef st1 = None \<or> audioCtxRef st1 = Some Closed
                   then st1\<lparr>audioCtxRef := Some Running, destRef := True\<rparr>
                   else if audioCtxRef st1 = Some Suspended
                   then st1\<lparr>audioCtxRef := Some Running\<rparr>
                   else st1)
            in if canvasRef st2 \<noteq> None \<and> destRef st2
               then
                 (let mimeType = (if vp9Supported env then ''video/webm;codecs=vp9''
                                  else ''video/webm'')
                  in if recorderCtorOk env
                     then startLoop env capturedScene capturedPlaying
                            (st2\<lparr>mediaRecorderRef :=
                                   Some \<lparr>rec_state = Recording, rec_mimeType = mimeType,
                                         rec_onstop = False, rec_stopPending = False\<rparr>\<rparr>)
                     else st2\<lparr>alerts := alerts st2 + 1, isRecording := False\<rparr>)
               else startLoop env capturedScene capturedPlaying st2)
         else startLoop env capturedScene capturedPlaying st1)"


subsection \<open>The event loop\<close>

text \<open>
  The handlers run one at a time. An event is a click on one of the two start buttons
  (\<open>startPlayback(false)\<close>, \<open>startPlayback(true)\<close>), the \<open>ended\<close> event of the
  narration, a timer that fires, a fragment from the recorder, the recorder's \<open>stop\<close>
  event, an animation frame, or the image element finishing a load with the natural
  width and height given.
\<close>

datatype event =
    ClickStart bool
  | NarrationEnded
  | TimerFired nat
  | DataAvailable blob
  | RecorderStopped
  | AnimationFrame
  | ImageLoaded number number

text \<open>
  When an event can occur: the start buttons are rendered only while \<open>!isPlaying\<close>
  (line 407); \<open>ended\<close> is fired by a narration that is playing; a timer fires if it is
  pending; the recorder delivers fragments while it records and once more while its
  stop is pending; a frame runs if one is requested; an image with a source loads.
\<close>

definition enabled :: "event \<Rightarrow> Player \<Rightarrow> bool" where
  "enabled ev st =
     (case ev of
        ClickStart recording \<Rightarrow> \<not> isPlaying st
      | NarrationEnded \<Rightarrow> \<not> audio_paused (narrationRef st)
      | TimerFired i \<Rightarrow> i < length (timers st)
      | DataAvailable b \<Rightarrow>
          (case mediaRecorderRef st of
             None \<Rightarrow> False
           | Some r \<Rightarrow> rec_state r = Recording \<or> rec_stopPending r)
      | RecorderStopped \<Rightarrow>
          (case mediaRecorderRef st of None \<Rightarrow> False | Some r \<Rightarrow> rec_stopPending r)
      | AnimationFrame \<Rightarrow> requestRef st
      | ImageLoaded w h \<Rightarrow> img_src (imgRef st) \<noteq> None \<and> 0 < w \<and> 0 < h)"

text \<open>
  One tick of the render loop: \<open>renderFrame\<close> reads the refs as they are now, and the
  scene and the playing flag from its closure.
\<close>

definition tick :: "Env \<Rightarrow> Player \<Rightarrow> dom_error + (canvas_op list \<times> bool)" where
  "tick env st =
     renderFrame (canvasRef st) (videoRef st) (imgRef st) (loopScene st) (loopPlaying st)
       (env_now env) (sceneStartTimeRef st) (audio_currentTime (narrationRef st))"

text \<open>
  The handler of each event, followed by the effects of the render it causes. A
  narration that reaches its end is paused by the platform before \<open>ended\<close> is fired;
  the listener (lines 221-227) and a timer call the \<open>handleNext\<close> they captured. A
  tick that throws requests no further frame.
\<close>

definition fire :: "Scene list \<Rightarrow> Env \<Rightarrow> event \<Rightarrow> Player \<Rightarrow> Player" where
  "fire scenes env ev st =
     (case ev of
        ClickStart recording \<Rightarrow>
          runEffects scenes env st (startPlayback scenes recording env st)
      | NarrationEnded \<Rightarrow>
          (let st1 = st\<lparr>narrationRef := (narrationRef st)\<lparr>audio_paused := True\<rparr>\<rparr>
           in runEffects scenes env st1 (handleNext scenes (endedListenerRecording st1) st1))
      | TimerFired i \<Rightarrow>
          (let t = timers st ! i;
               st1 = st\<lparr>timers := take i (timers st) @ drop (Suc i) (timers st)\<rparr>
           in case timer_callback t of
                CallHandleNext captured \<Rightarrow> runEffects scenes env st1 (handleNext scenes captured st1)
              | ClearStatusMsg \<Rightarrow> st1\<lparr>statusMsg := NoStatus\<rparr>)
      | DataAvailable b \<Rightarrow> ondataavailable b st
      | RecorderStopped \<Rightarrow>
          (case mediaRecorderRef st of
             None \<Rightarrow> st
           | Some r \<Rightarrow>
               (let st1 = st\<lparr>mediaRecorderRef := Some (r\<lparr>rec_stopPending := False\<rparr>)\<rparr>
                in if rec_onstop r then onstopHandler st1 else st1))
      | AnimationFrame \<Rightarrow>
          (case tick env st of
             Inl e \<Rightarrow> st\<lparr>requestRef := False\<rparr>
           | Inr drawn \<Rightarrow> st\<lparr>requestRef := snd drawn, canvasOps := fst drawn\<rparr>)
      | ImageLoaded w h \<Rightarrow>
          st\<lparr>imgRef := (imgRef st)\<lparr>img_complete := True, naturalWidth := w,
                                    naturalHeight := h, img_broken := False\<rparr>\<rparr>)"

text \<open>
  The component as mounted (lines 19-41): the elements are fresh, the canvas of lines
  387-392 is attached, the \<open>ended\<close> listener registered by the first run of its
  effect captured \<open>isRecording = false\<close>, and no frame is requested.
\<close>

definition mounted :: Player where
  "mounted =
     \<lparr>currentSceneIndex = 0, isPlaying = False, isRecording = False, statusMsg = NoStatus,
      videoRef = \<lparr>video_src = None, video_readyState = 0, video_paused = True,
                  videoWidth = 0, videoHeight = 0\<rparr>,
      imgRef = \<lparr>img_src = None, img_complete = True, naturalWidth = 0, naturalHeight = 0,
                img_broken = False\<rparr>,
      narrationRef = \<lparr>audio_src = None, audio_paused = True, audio_currentTime = 0\<rparr>,
      bgmRef = \<lparr>audio_src = Some ''https://cdn.pixabay.com/audio/2022/10/18/audio_31c2730e64.mp3'',
                audio_paused = True, audio_currentTime = 0\<rparr>,
      canvasRef = Some \<lparr>canvas_width = 1280, canvas_height = 720, canvas_has2d = True\<rparr>,
      requestRef = False, sceneStartTimeRef = 0, audioCtxRef = None, destRef = False,
      mediaRecorderRef = None, recordedChunksRef = [], timers = [],
      endedListenerRecording = False, loopScene = None, loopPlaying = False, canvasOps = [],
      alerts = 0, downloads = []\<rparr>"

text \<open>The states the component reaches from its mount, under any environment.\<close>

inductive reachable :: "Scene list \<Rightarrow> Player \<Rightarrow> bool" for scenes :: "Scene list" where
  reachable_mounted: "reachable scenes mounted"
| reachable_fire: "reachable scenes st \<Longrightarrow> enabled ev st \<Longrightarrow> reachable scenes (fire scenes env ev st)"

text \<open>
  What can still advance the scene: the \<open>ended\<close> event of a playing narration (its
  listener is always registered) and every pending timer that calls \<open>handleNext\<close>.
\<close>

datatype advance_trigger = ByNarrationEnded | ByTimeout number

definition callsHandleNext :: "Timer \<Rightarrow> bool" where
  "callsHandleNext t = (case timer_callback t of CallHandleNext c \<Rightarrow> True | ClearStatusMsg \<Rightarrow> False)"

definition pendingAdvances :: "Player \<Rightarrow> advance_trigger list" where
  "pendingAdvances st =
     (if \<not> audio_paused (narrationRef st) then [ByNarrationEnded] else [])
     @ map (\<lambda>t. ByTimeout (timer_delay t)) (filter callsHandleNext (timers st))"


section \<open>Properties of the frame renderer\<close>

text \<open>Elements and a canvas to run the renderer on.\<close>

definition hdCanvas :: Canvas where
  "hdCanvas = \<lparr>canvas_width = 1280, canvas_height = 720, canvas_has2d = True\<rparr>"

definition idleVideo :: VideoElement where
  "idleVideo = \<lparr>video_src = None, video_readyState = 0, video_paused = True,
     videoWidth = 0, videoHeight = 0\<rparr>"

definition stillImage :: ImageElement where
  "stillImage = \<lparr>img_src = Some ''blob:image'', img_complete = True, naturalWidth = 640,
     naturalHeight = 480, img_broken = False\<rparr>"

definition brokenImage :: ImageElement where
  "brokenImage = \<lparr>img_src = Some ''blob:gone'', img_complete = True, naturalWidth = 0,
     naturalHeight = 0, img_broken = True\<rparr>"

lemma kenBurnsScale_eq:
  "kenBurnsScale cs now start =
     1 + 0.15 * min ((now - start) / ((case cs of None \<Rightarrow> 5 | Some sc \<Rightarrow> sceneDuration sc) * 1000)) 1"
  by (simp add: kenBurnsScale_def Let_def)

lemma drawImageProp_image:
  assumes "naturalWidth img \<noteq> 0" "naturalHeight img \<noteq> 0" "\<not> img_broken img"
  shows "drawImageProp (ImageSource img) 0 0 w h (1 / 2) (1 / 2) z =
     Inr [DrawImage (ImageSource img)
            ((w - naturalWidth img * (max (w / naturalWidth img) (h / naturalHeight img) * z)) / 2)
            ((h - naturalHeight img * (max (w / naturalWidth img) (h / naturalHeight img) * z)) / 2)
            (naturalWidth img * (max (w / naturalWidth img) (h / naturalHeight img) * z))
            (naturalHeight img * (max (w / naturalWidth img) (h / naturalHeight img) * z))]"
  using assms by (simp add: drawImageProp_def ctx_drawImage_def Let_def)

lemma renderFrame_image_branch:
  assumes "canvas_has2d canvas"
    and "\<not> (video_readyState video \<ge> 2 \<and> \<not> video_paused video)"
    and "img_complete img" "naturalWidth img > 0"
  shows "renderFrame (Some canvas) video img cs playing now start t =
     (case drawImageProp (ImageSource img) 0 0 (canvas_width canvas) (canvas_height canvas) 0.5 0.5
             (kenBurnsScale cs now start) of
        Inl e \<Rightarrow> Inl e
      | Inr ops \<Rightarrow> Inr ([FillRect ''#000'' 0 0 (canvas_width canvas) (canvas_height canvas)] @ ops
                         @ subtitleOps canvas cs playing t, True))"
  using assms by (auto simp add: renderFrame_def Let_def)

lemma renderFrame_image_zoom_aux:
  assumes "canvas_has2d canvas"
    and "\<not> (video_readyState video \<ge> 2 \<and> \<not> video_paused video)"
    and "img_complete img" "naturalWidth img > 0" "naturalHeight img \<noteq> 0" "\<not> img_broken img"
    and D: "D = (case cs of None \<Rightarrow> 5 | Some sc \<Rightarrow> sceneDuration sc)"
    and elapsed: "elapsed = now - start"
    and zoom: "zoom = kenBurnsScale cs now start"
    and cover: "cover = max (canvas_width canvas / naturalWidth img) (canvas_height canvas / naturalHeight img)"
    and nw: "nw = naturalWidth img * (cover * zoom)"
    and nh: "nh = naturalHeight img * (cover * zoom)"
    and xPos: "xPos = (canvas_width canvas - nw) / 2"
    and yPos: "yPos = (canvas_height canvas - nh) / 2"
  shows "renderFrame (Some canvas) video img cs playing now start t
         = Inr ([FillRect ''#000'' 0 0 (canvas_width canvas) (canvas_height canvas),
                 DrawImage (ImageSource img) xPos yPos nw nh]
                 @ subtitleOps canvas cs playing t, True)
       \<and> xPos + nw / 2 = canvas_width canvas / 2 \<and> yPos + nh / 2 = canvas_height canvas / 2
       \<and> zoom = 1 + 0.15 * min (elapsed / (D * 1000)) 1
       \<and> (0 < D \<and> 0 \<le> elapsed \<and> elapsed \<le> D * 1000 \<longrightarrow>
            zoom = 1 + 0.15 * (elapsed / (D * 1000)) \<and> 1 \<le> zoom \<and> zoom \<le> 1.15)
       \<and> (elapsed = 0 \<longrightarrow> zoom = 1)
       \<and> (0 < D \<and> D * 1000 \<le> elapsed \<longrightarrow> zoom = 1.15)"
proof -
  have z: "zoom = 1 + 0.15 * min (elapsed / (D * 1000)) 1"
    by (simp add: zoom kenBurnsScale_eq D elapsed)
  have nz: "naturalWidth img \<noteq> 0" using assms(4) by simp
  have r: "renderFrame (Some canvas) video img cs playing now start t
      = Inr ([FillRect ''#000'' 0 0 (canvas_width canvas) (canvas_height canvas),
              DrawImage (ImageSource img) xPos yPos nw nh]
             @ subtitleOps canvas cs playing t, True)"
    unfolding xPos yPos nw nh cover zoom
    by (simp add: renderFrame_image_branch [OF assms(1-4)] drawImageProp_image [OF nz assms(5,6)])
  have cx: "xPos + nw / 2 = canvas_width canvas / 2" by (simp add: xPos diff_divide_distrib)
  have cy: "yPos + nh / 2 = canvas_height canvas / 2" by (simp add: yPos diff_divide_distrib)
  have lin: "0 < D \<and> 0 \<le> elapsed \<and> elapsed \<le> D * 1000 \<longrightarrow>
            zoom = 1 + 0.15 * (elapsed / (D * 1000)) \<and> 1 \<le> zoom \<and> zoom \<le> 1.15"
  proof (intro impI)
    assume a: "0 < D \<and> 0 \<le> elapsed \<and> elapsed \<le> D * 1000"
    then have le: "elapsed / (D * 1000) \<le> 1" by simp
    from a have ge: "0 \<le> elapsed / (D * 1000)" by simp
    from le have "zoom = 1 + 0.15 * (elapsed / (D * 1000))" by (simp add: z min_def)
    with le ge show "zoom = 1 + 0.15 * (elapsed / (D * 1000)) \<and> 1 \<le> zoom \<and> zoom \<le> 1.15"
      by simp
  qed
  have zero: "elapsed = 0 \<longrightarrow> zoom = 1" by (simp add: z)
  have full: "0 < D \<and> D * 1000 \<le> elapsed \<longrightarrow> zoom = 1.15"
  proof (intro impI)
    assume a: "0 < D \<and> D * 1000 \<le> elapsed"
    then have "1 \<le> elapsed / (D * 1000)" by simp
    then show "zoom = 1.15" by (simp add: z min_def)
  qed
  from r cx cy z lin zero full show ?thesis by blast
qed

lemma drawImageProp_never_throws:
  assumes "\<forall>i. src = ImageSource i \<longrightarrow> img_broken i \<longrightarrow> naturalWidth i = 0"
  shows "\<exists>ops. drawImageProp src x y w h ox oy z = Inr ops"
  using assms by (cases src) (auto simp add: drawImageProp_def ctx_drawImage_def Let_def)

text \<open>
  What a tick draws in the image branch, for the scene \<open>cs\<close> that the running
  \<open>renderFrame\<close> closure holds: the canvas is cleared and the image is drawn at
  \<open>cover * zoom\<close> times its natural size, centred, with
  \<open>zoom = 1 + 0.15 * min (elapsed / duration) 1\<close> over the duration of \<open>cs\<close>.
\<close>

lemma renderFrame_image_zoom:
  assumes "canvas_has2d canvas"
    and "\<not> (video_readyState video \<ge> 2 \<and> \<not> video_paused video)"
    and "img_complete img" "naturalWidth img > 0" "naturalHeight img \<noteq> 0" "\<not> img_broken img"
  shows
   "let cw = canvas_width canvas; ch = canvas_height canvas;
        iw = naturalWidth img; ih = naturalHeight img;
        D = (case cs of None \<Rightarrow> 5 | Some sc \<Rightarrow> sceneDuration sc);
        elapsed = now - start;
        zoom = kenBurnsScale cs now start;
        cover = max (cw / iw) (ch / ih);
        nw = iw * (cover * zoom); nh = ih * (cover * zoom);
        xPos = (cw - nw) / 2; yPos = (ch - nh) / 2
    in renderFrame (Some canvas) video img cs playing now start t
         = Inr ([FillRect ''#000'' 0 0 cw ch, DrawImage (ImageSource img) xPos yPos nw nh]
                 @ subtitleOps canvas cs playing t, True)
       \<and> xPos + nw / 2 = cw / 2 \<and> yPos + nh / 2 = ch / 2
       \<and> zoom = 1 + 0.15 * min (elapsed / (D * 1000)) 1
       \<and> (0 < D \<and> 0 \<le> elapsed \<and> elapsed \<le> D * 1000 \<longrightarrow>
            zoom = 1 + 0.15 * (elapsed / (D * 1000)) \<and> 1 \<le> zoom \<and> zoom \<le> 1.15)
       \<and> (elapsed = 0 \<longrightarrow> zoom = 1)
       \<and> (0 < D \<and> D * 1000 \<le> elapsed \<longrightarrow> zoom = 1.15)"
  unfolding Let_def
  by (rule renderFrame_image_zoom_aux [OF assms refl refl refl refl refl refl refl refl])

lemma renderFrame_image_zoom_example:
  "canvas_has2d hdCanvas
   \<and> \<not> (video_readyState idleVideo \<ge> 2 \<and> \<not> video_paused idleVideo)
   \<and> img_complete stillImage \<and> naturalWidth stillImage > 0 \<and> naturalHeight stillImage \<noteq> 0
   \<and> \<not> img_broken stillImage
   \<and> renderFrame (Some hdCanvas) idleVideo stillImage (Some sceneAB) False 2000 0 0
        = Inr ([FillRect ''#000'' 0 0 1280 720,
                DrawImage (ImageSource stillImage) (- 48) (- 156) 1376 1032], True)
   \<and> kenBurnsScale (Some sceneAB) 0 0 = 1
   \<and> kenBurnsScale (Some sceneAB) 2000 0 = 1.075
   \<and> kenBurnsScale (Some sceneAB) 4000 0 = 1.15
   \<and> kenBurnsScale (Some sceneAB) 9000 0 = 1.15"
proof -
  have h: "canvas_has2d hdCanvas"
    "\<not> (video_readyState idleVideo \<ge> 2 \<and> \<not> video_paused idleVideo)"
    "img_complete stillImage" "naturalWidth stillImage > 0" "naturalHeight stillImage \<noteq> 0"
    "\<not> img_broken stillImage"
    by (simp_all add: hdCanvas_def idleVideo_def stillImage_def)
  have dims: "canvas_width hdCanvas = 1280" "canvas_height hdCanvas = 720"
    "naturalWidth stillImage = 640" "naturalHeight stillImage = 480"
    by (simp_all add: hdCanvas_def stillImage_def)
  have sub: "subtitleOps hdCanvas (Some sceneAB) False 0 = []" by (simp add: subtitleOps_def)
  show ?thesis
    using h
      renderFrame_image_zoom [OF h, of "Some sceneAB" 2000 0 False 0]
      renderFrame_image_zoom [OF h, of "Some sceneAB" 0 0 False 0]
      renderFrame_image_zoom [OF h, of "Some sceneAB" 4000 0 False 0]
      renderFrame_image_zoom [OF h, of "Some sceneAB" 9000 0 False 0]
    by (simp add: Let_def dims sub sceneAB_fields)
qed

text \<open>
  Claim C9. A render tick never throws, whatever the state of the handles, given the
  platform's guarantee that a broken image has natural width 0. With a canvas and its
  context, and neither a ready, playing video nor a complete image of positive width,
  the tick draws the fallback fill \<open>#111\<close> over the cleared canvas. \<open>drawImageProp\<close>
  returns without drawing when the width or the height of its source is 0.
\<close>

theorem renderFrame_tolerates_unready_assets:
  assumes platform: "img_broken img \<longrightarrow> naturalWidth img = 0"
  shows "(\<exists>ops next. renderFrame cref video img cs playing now start t = Inr (ops, next))
    \<and> (\<forall>canvas. cref = Some canvas \<and> canvas_has2d canvas
          \<and> \<not> (video_readyState video \<ge> 2 \<and> \<not> video_paused video)
          \<and> \<not> (img_complete img \<and> naturalWidth img > 0) \<longrightarrow>
          renderFrame cref video img cs playing now start t
            = Inr ([FillRect ''#000'' 0 0 (canvas_width canvas) (canvas_height canvas),
                    FillRect ''#111'' 0 0 (canvas_width canvas) (canvas_height canvas)]
                   @ subtitleOps canvas cs playing t, True))
    \<and> (videoWidth video = 0 \<or> videoHeight video = 0 \<longrightarrow>
          drawImageProp (VideoSource video) x y w h ox oy z = Inr [])
    \<and> (naturalWidth img = 0 \<or> naturalHeight img = 0 \<longrightarrow>
          drawImageProp (ImageSource img) x y w h ox oy z = Inr [])"
proof -
  have v: "\<exists>ops. drawImageProp (VideoSource video) 0 0 cw ch 0.5 0.5 1.0 = Inr ops" for cw ch
    by (rule drawImageProp_never_throws) simp
  have i: "\<exists>ops. drawImageProp (ImageSource img) 0 0 cw ch 0.5 0.5 zf = Inr ops" for cw ch zf
    by (rule drawImageProp_never_throws) (use platform in simp)
  have a: "\<exists>ops next. renderFrame cref video img cs playing now start t = Inr (ops, next)"
  proof (cases cref)
    case None
    then have "renderFrame cref video img cs playing now start t = Inr ([], False)"
      by (simp add: renderFrame_def)
    then show ?thesis by blast
  next
    case (Some canvas)
    obtain vo where vo: "drawImageProp (VideoSource video) 0 0 (canvas_width canvas) (canvas_height canvas) 0.5 0.5 1.0 = Inr vo"
      using v by blast
    obtain io where io: "drawImageProp (ImageSource img) 0 0 (canvas_width canvas) (canvas_height canvas) 0.5 0.5 (kenBurnsScale cs now start) = Inr io"
      using i by blast
    show ?thesis using Some vo io by (auto simp add: renderFrame_def Let_def)
  qed
  have b: "\<forall>canvas. cref = Some canvas \<and> canvas_has2d canvas
          \<and> \<not> (video_readyState video \<ge> 2 \<and> \<not> video_paused video)
          \<and> \<not> (img_complete img \<and> naturalWidth img > 0) \<longrightarrow>
          renderFrame cref video img cs playing now start t
            = Inr ([FillRect ''#000'' 0 0 (canvas_width canvas) (canvas_height canvas),
                    FillRect ''#111'' 0 0 (canvas_width canvas) (canvas_height canvas)]
                   @ subtitleOps canvas cs playing t, True)"
    by (auto simp add: renderFrame_def Let_def)
  have c: "videoWidth video = 0 \<or> videoHeight video = 0 \<longrightarrow>
          drawImageProp (VideoSource video) x y w h ox oy z = Inr []"
    by (simp add: drawImageProp_def Let_def)
  have d: "naturalWidth img = 0 \<or> naturalHeight img = 0 \<longrightarrow>
          drawImageProp (ImageSource img) x y w h ox oy z = Inr []"
    by (simp add: drawImageProp_def Let_def)
  from a b c d show ?thesis by blast
qed


theorem renderFrame_tolerates_unready_assets_witness:
  "img_broken brokenImage \<and> naturalWidth brokenImage = 0 \<and> canvas_has2d hdCanvas
   \<and> renderFrame (Some hdCanvas) idleVideo brokenImage None False 0 0 0
        = Inr ([FillRect ''#000'' 0 0 1280 720, FillRect ''#111'' 0 0 1280 720], True)
   \<and> drawImageProp (ImageSource brokenImage) 0 0 1280 720 (1 / 2) (1 / 2) 1 = Inr []
   \<and> drawImageProp (VideoSource idleVideo) 0 0 1280 720 (1 / 2) (1 / 2) 1 = Inr []"
proof -
  have h: "img_broken brokenImage \<longrightarrow> naturalWidth brokenImage = 0"
    by (simp add: brokenImage_def)
  have f: "img_broken brokenImage" "naturalWidth brokenImage = 0" "canvas_has2d hdCanvas"
    "video_readyState idleVideo = 0" "videoWidth idleVideo = 0"
    "canvas_width hdCanvas = 1280" "canvas_height hdCanvas = 720"
    by (simp_all add: brokenImage_def hdCanvas_def idleVideo_def)
  have sub: "subtitleOps hdCanvas None False 0 = []" by (simp add: subtitleOps_def)
  show ?thesis
    using renderFrame_tolerates_unready_assets
      [OF h, of "Some hdCanvas" idleVideo None False 0 0 0 0 0 1280 720 "1 / 2" "1 / 2" 1]
    by (simp add: f sub)
qed

section \<open>Properties of the sequencer and the recorder\<close>

subsection \<open>What the handlers leave unchanged\<close>

lemma sceneCleanup_fields [simp]:
  "currentSceneIndex (sceneCleanup st) = currentSceneIndex st"
  "isPlaying (sceneCleanup st) = isPlaying st"
  "isRecording (sceneCleanup st) = isRecording st"
  "narrationRef (sceneCleanup st) = narrationRef st"
  "timers (sceneCleanup st) = filter (\<lambda>t. \<not> timer_owned t) (timers st)"
  by (simp_all add: sceneCleanup_def)

lemma sceneEffect_fields [simp]:
  "currentSceneIndex (sceneEffect scenes env st) = currentSceneIndex st"
  "isPlaying (sceneEffect scenes env st) = isPlaying st"
  "isRecording (sceneEffect scenes env st) = isRecording st"
  by (simp_all add: sceneEffect_def Let_def)

lemma runEffects_fields [simp]:
  "currentSceneIndex (runEffects scenes env old st) = currentSceneIndex st"
  "isPlaying (runEffects scenes env old st) = isPlaying st"
  by (simp_all add: runEffects_def Let_def)

lemma stopRecording_fields [simp]:
  "currentSceneIndex (stopRecording st) = currentSceneIndex st"
  "isPlaying (stopRecording st) = isPlaying st"
  "narrationRef (stopRecording st) = narrationRef st"
  "timers (stopRecording st) = timers st"
  by (simp_all add: stopRecording_def split: option.split)

lemma finishPlayback_fields [simp]:
  "currentSceneIndex (finishPlayback c st) = currentSceneIndex st"
  "isPlaying (finishPlayback c st) = False"
  "audio_paused (narrationRef (finishPlayback c st)) = True"
  "timers (finishPlayback c st) = timers st"
  by (simp_all add: finishPlayback_def Let_def)

lemma startPlayback_fields [simp]:
  "currentSceneIndex (startPlayback scenes r env st) = 0"
  "isPlaying (startPlayback scenes r env st) = True"
  "narrationRef (startPlayback scenes r env st) = narrationRef st"
  "timers (startPlayback scenes r env st) = timers st"
  by (simp_all add: startPlayback_def startLoop_def Let_def)

lemma handleNext_index:
  "currentSceneIndex (handleNext scenes c st) =
     (if currentSceneIndex st + 1 < length scenes then currentSceneIndex st + 1
      else currentSceneIndex st)"
  by (simp add: handleNext_def Let_def)

lemma handleNext_isPlaying:
  "isPlaying (handleNext scenes c st) =
     (if currentSceneIndex st + 1 < length scenes then isPlaying st else False)"
  by (simp add: handleNext_def Let_def)

lemma handleNext_timers [simp]: "timers (handleNext scenes c st) = timers st"
  by (simp add: handleNext_def Let_def)

lemma handleNext_narration:
  "audio_paused (narrationRef st) \<Longrightarrow> audio_paused (narrationRef (handleNext scenes c st))"
  by (simp add: handleNext_def Let_def)

lemma fire_index:
  "currentSceneIndex (fire scenes env ev st) =
     (case ev of
        ClickStart r \<Rightarrow> 0
      | NarrationEnded \<Rightarrow>
          (if currentSceneIndex st + 1 < length scenes then currentSceneIndex st + 1
           else currentSceneIndex st)
      | TimerFired i \<Rightarrow>
          (case timer_callback (timers st ! i) of
             CallHandleNext c \<Rightarrow>
               (if currentSceneIndex st + 1 < length scenes then currentSceneIndex st + 1
                else currentSceneIndex st)
           | ClearStatusMsg \<Rightarrow> currentSceneIndex st)
      | DataAvailable b \<Rightarrow> currentSceneIndex st
      | RecorderStopped \<Rightarrow> currentSceneIndex st
      | AnimationFrame \<Rightarrow> currentSceneIndex st
      | ImageLoaded w h \<Rightarrow> currentSceneIndex st)"
  by (simp add: fire_def Let_def handleNext_index ondataavailable_def onstopHandler_def
      split: event.split timer_callback.split option.split sum.split)

lemma reachable_index:
  assumes "reachable scenes st" and "scenes \<noteq> []"
  shows "currentSceneIndex st < length scenes"
  using assms
proof (induction rule: reachable.induct)
  case reachable_mounted
  then show ?case by (simp add: mounted_def)
next
  case (reachable_fire st ev env)
  then have "currentSceneIndex st < length scenes" by simp
  then show ?case using \<open>scenes \<noteq> []\<close>
    by (simp add: fire_index split: event.split timer_callback.split)
qed

lemma advances_index:
  "currentSceneIndex st < length scenes \<Longrightarrow>
   currentSceneIndex (foldl (\<lambda>s c. handleNext scenes c s) st cs) < length scenes"
proof (induction cs arbitrary: st)
  case Nil
  then show ?case by simp
next
  case (Cons c cs)
  from Cons.prems have "currentSceneIndex (handleNext scenes c st) < length scenes"
    by (simp add: handleNext_index)
  then show ?case using Cons.IH by simp
qed

subsection \<open>Runs of the component used as examples\<close>

text \<open>
  A scene with narration audio and an image, a scene with a clip and no audio, and an
  environment in which every platform call succeeds. \<open>previewFirst\<close> is a preview just
  started on the two scenes, \<open>previewSecond\<close> the same run after the first narration
  ended, \<open>previewMuted\<close> a preview whose first narration could not start, and
  \<open>recordingFirst\<close> a recording just started.
\<close>

definition narratedScene :: Scene where
  "narratedScene = \<lparr>scene_id = [49], narration = [65, 46, 32, 66, 33], visualPrompt = [],
     imageUrl = Some ''blob:image'', videoUrl = None, audioUrl = Some ''blob:audio'',
     audioDuration = Some 4\<rparr>"

definition silentScene :: Scene where
  "silentScene = \<lparr>scene_id = [50], narration = [72, 105], visualPrompt = [],
     imageUrl = None, videoUrl = Some ''blob:clip'', audioUrl = None, audioDuration = None\<rparr>"

definition okEnv :: Env where
  "okEnv = \<lparr>env_now = 1000, narrationPlayOk = True, videoPlayOk = True, bgmPlayOk = True,
     vp9Supported = True, recorderCtorOk = True\<rparr>"

lemmas run_defs =
  fire_def enabled_def startPlayback_def startLoop_def runEffects_def sceneEffect_def
  sceneCleanup_def handleNext_def finishPlayback_def stopRecording_def onstopHandler_def
  ondataavailable_def mounted_def truthy_def sceneDuration_def narratedScene_def
  silentScene_def okEnv_def Let_def

definition previewFirst :: Player where
  "previewFirst = fire [narratedScene, silentScene] okEnv (ClickStart False) mounted"

definition previewSecond :: Player where
  "previewSecond = fire [narratedScene, silentScene] okEnv NarrationEnded previewFirst"

definition previewMuted :: Player where
  "previewMuted = fire [narratedScene, silentScene] (okEnv\<lparr>narrationPlayOk := False\<rparr>)
     (ClickStart False) mounted"

lemma previewFirst_fields:
  "currentSceneIndex previewFirst = 0" "isPlaying previewFirst"
  "\<not> audio_paused (narrationRef previewFirst)" "timers previewFirst = []"
  by (simp_all add: previewFirst_def run_defs)

lemma previewSecond_fields:
  "currentSceneIndex previewSecond = 1" "isPlaying previewSecond"
  "audio_paused (narrationRef previewSecond)"
  "timers previewSecond = [\<lparr>timer_callback = CallHandleNext False, timer_delay = 5000,
                             timer_owned = True\<rparr>]"
  by (simp_all add: previewSecond_def previewFirst_def run_defs)

lemma previewMuted_fields:
  "currentSceneIndex previewMuted = 0" "isPlaying previewMuted"
  "audio_paused (narrationRef previewMuted)"
  "timers previewMuted = [\<lparr>timer_callback = CallHandleNext False, timer_delay = 4000,
                            timer_owned = False\<rparr>]"
  by (simp_all add: previewMuted_def run_defs)

lemma reachable_previewFirst: "reachable [narratedScene, silentScene] previewFirst"
  unfolding previewFirst_def
  by (rule reachable_fire [OF reachable_mounted]) (simp add: enabled_def mounted_def)

lemma reachable_previewSecond: "reachable [narratedScene, silentScene] previewSecond"
  unfolding previewSecond_def
  by (rule reachable_fire [OF reachable_previewFirst]) (simp add: enabled_def previewFirst_fields)

lemma reachable_previewMuted: "reachable [narratedScene, silentScene] previewMuted"
  unfolding previewMuted_def
  by (rule reachable_fire [OF reachable_mounted]) (simp add: enabled_def mounted_def)

definition silentEntry :: Player where
  "silentEntry = startPlayback [silentScene] False okEnv mounted"

definition recordingFirst :: Player where
  "recordingFirst = fire [narratedScene, silentScene] okEnv (ClickStart True) mounted"


subsection \<open>Recording buffer\<close>













lemma sceneEffect_recorder [simp]:
  "mediaRecorderRef (sceneEffect scenes env st) = mediaRecorderRef st"
  "recordedChunksRef (sceneEffect scenes env st) = recordedChunksRef st"
  "downloads (sceneEffect scenes env st) = downloads st"
  by (simp_all add: sceneEffect_def Let_def)

lemma runEffects_recorder [simp]:
  "mediaRecorderRef (runEffects scenes env old st) = mediaRecorderRef st"
  "recordedChunksRef (runEffects scenes env old st) = recordedChunksRef st"
  "downloads (runEffects scenes env old st) = downloads st"
  by (simp_all add: runEffects_def sceneCleanup_def Let_def)

















subsection \<open>The scene index stays in bounds\<close>

text \<open>
  Claim C10. For a scene list that is not empty, in every state the component reaches
  the scene index is below the number of scenes, so the current scene is defined; any
  sequence of advances keeps it so, an advance below the last scene adds one, and an
  advance at the last scene leaves the index and stops the playback.
\<close>

theorem scene_index_in_bounds:
  assumes "reachable scenes st" and "scenes \<noteq> []"
  shows "currentSceneIndex st < length scenes
    \<and> currentScene scenes st = Some (scenes ! currentSceneIndex st)
    \<and> (\<forall>cs. currentSceneIndex (foldl (\<lambda>s c. handleNext scenes c s) st cs) < length scenes)
    \<and> (\<forall>c. currentSceneIndex st + 1 < length scenes \<longrightarrow>
          currentSceneIndex (handleNext scenes c st) = currentSceneIndex st + 1)
    \<and> (\<forall>c. currentSceneIndex st + 1 = length scenes \<longrightarrow>
          currentSceneIndex (handleNext scenes c st) = currentSceneIndex st
          \<and> \<not> isPlaying (handleNext scenes c st))"
proof -
  have i: "currentSceneIndex st < length scenes" using assms by (rule reachable_index)
  then have "currentScene scenes st = Some (scenes ! currentSceneIndex st)"
    by (simp add: currentScene_def)
  moreover have "\<forall>cs. currentSceneIndex (foldl (\<lambda>s c. handleNext scenes c s) st cs) < length scenes"
    using i by (simp add: advances_index)
  ultimately show ?thesis using i by (simp add: handleNext_index handleNext_isPlaying)
qed

theorem scene_index_in_bounds_witness:
  "reachable [narratedScene, silentScene] previewFirst
   \<and> reachable [narratedScene, silentScene] previewSecond
   \<and> [narratedScene, silentScene] \<noteq> []
   \<and> currentSceneIndex previewFirst + 1 < length [narratedScene, silentScene]
   \<and> currentSceneIndex (handleNext [narratedScene, silentScene] False previewFirst) = 1
   \<and> currentSceneIndex previewSecond + 1 = length [narratedScene, silentScene]
   \<and> currentSceneIndex (handleNext [narratedScene, silentScene] False previewSecond) = 1
   \<and> \<not> isPlaying (handleNext [narratedScene, silentScene] False previewSecond)
   \<and> currentScene [narratedScene, silentScene] previewSecond = Some silentScene"
proof -
  have ne: "[narratedScene, silentScene] \<noteq> []" by simp
  show ?thesis
    using scene_index_in_bounds [OF reachable_previewFirst ne]
      scene_index_in_bounds [OF reachable_previewSecond ne]
      reachable_previewFirst reachable_previewSecond
    by (simp add: previewFirst_fields previewSecond_fields)
qed

subsection \<open>Entering a scene\<close>

text \<open>
  \<open>nextTimers\<close> are the pending timers that call \<open>handleNext\<close>; \<open>entryAdvance\<close> is the
  advance that is pending after a scene is entered from a state in which none is.
\<close>

definition nextTimers :: "Player \<Rightarrow> Timer list" where
  "nextTimers st = filter callsHandleNext (timers st)"

lemma pendingAdvances_alt:
  "pendingAdvances st =
     (if \<not> audio_paused (narrationRef st) then [ByNarrationEnded] else [])
     @ map (\<lambda>t. ByTimeout (timer_delay t)) (nextTimers st)"
  by (simp add: pendingAdvances_def nextTimers_def)

lemma pendingAdvances_Nil:
  "pendingAdvances st = [] \<longleftrightarrow> audio_paused (narrationRef st) \<and> nextTimers st = []"
  by (simp add: pendingAdvances_alt)

lemma nextTimers_sceneCleanup: "nextTimers st = [] \<Longrightarrow> nextTimers (sceneCleanup st) = []"
proof -
  assume "nextTimers st = []"
  then have "\<forall>t \<in> set (timers st). \<not> callsHandleNext t"
    by (simp add: nextTimers_def filter_empty_conv)
  then show ?thesis by (simp add: nextTimers_def filter_empty_conv)
qed

lemma sceneEffect_idle:
  "\<not> isPlaying st \<or> \<not> currentSceneIndex st < length scenes \<Longrightarrow> sceneEffect scenes env st = st"
  by (auto simp add: sceneEffect_def)

lemma sceneEffect_no_audio:
  assumes "isPlaying st" "currentSceneIndex st < length scenes"
    and "\<not> truthy (audioUrl (scenes ! currentSceneIndex st))"
  shows "timers (sceneEffect scenes env st) =
           timers st @ [\<lparr>timer_callback = CallHandleNext (isRecording st), timer_delay = 5000,
                         timer_owned = True\<rparr>]"
    and "narrationRef (sceneEffect scenes env st) = narrationRef st"
  using assms by (simp_all add: sceneEffect_def Let_def)

lemma sceneEffect_audio_started:
  assumes "isPlaying st" "currentSceneIndex st < length scenes"
    and "truthy (audioUrl (scenes ! currentSceneIndex st))" and "narrationPlayOk env"
  shows "timers (sceneEffect scenes env st) = timers st"
    and "narrationRef (sceneEffect scenes env st) =
           \<lparr>audio_src = audioUrl (scenes ! currentSceneIndex st), audio_paused = False,
            audio_currentTime = 0\<rparr>"
  using assms by (simp_all add: sceneEffect_def Let_def)

lemma sceneEffect_audio_failed:
  assumes "isPlaying st" "currentSceneIndex st < length scenes"
    and "truthy (audioUrl (scenes ! currentSceneIndex st))" and "\<not> narrationPlayOk env"
  shows "timers (sceneEffect scenes env st) =
           timers st @ [\<lparr>timer_callback = CallHandleNext (isRecording st),
                         timer_delay = sceneDuration (scenes ! currentSceneIndex st) * 1000,
                         timer_owned = False\<rparr>]"
    and "narrationRef (sceneEffect scenes env st) =
           \<lparr>audio_src = audioUrl (scenes ! currentSceneIndex st), audio_paused = True,
            audio_currentTime = 0\<rparr>"
  using assms by (simp_all add: sceneEffect_def Let_def)

definition entryAdvance :: "Scene \<Rightarrow> Env \<Rightarrow> advance_trigger" where
  "entryAdvance sc env =
     (if truthy (audioUrl sc)
      then (if narrationPlayOk env then ByNarrationEnded else ByTimeout (sceneDuration sc * 1000))
      else ByTimeout 5000)"

lemma sceneEffect_pending:
  assumes "isPlaying st" "currentSceneIndex st < length scenes" "pendingAdvances st = []"
  shows "pendingAdvances (sceneEffect scenes env st)
           = [entryAdvance (scenes ! currentSceneIndex st) env]"
proof -
  from assms(3) have q: "audio_paused (narrationRef st)" "filter callsHandleNext (timers st) = []"
    by (simp_all add: pendingAdvances_Nil nextTimers_def)
  show ?thesis
  proof (cases "truthy (audioUrl (scenes ! currentSceneIndex st))")
    case False
    with q sceneEffect_no_audio [OF assms(1,2) False, of env] show ?thesis
      by (simp add: pendingAdvances_def entryAdvance_def callsHandleNext_def)
  next
    case True
    show ?thesis
    proof (cases "narrationPlayOk env")
      case ok: True
      with q sceneEffect_audio_started [OF assms(1,2) True ok] True show ?thesis
        by (simp add: pendingAdvances_def entryAdvance_def)
    next
      case ko: False
      with q sceneEffect_audio_failed [OF assms(1,2) True ko] True show ?thesis
        by (simp add: pendingAdvances_def entryAdvance_def callsHandleNext_def)
    qed
  qed
qed

lemma sceneEffect_startTime:
  "isPlaying st \<Longrightarrow> currentSceneIndex st < length scenes \<Longrightarrow>
   sceneStartTimeRef (sceneEffect scenes env st) = env_now env"
  by (simp add: sceneEffect_def Let_def)

lemma timer_fired_after_entry:
  assumes "isPlaying st" "currentSceneIndex st < length scenes"
    and "\<not> truthy (audioUrl (scenes ! currentSceneIndex st))"
  shows "fire scenes env' (TimerFired (length (timers st))) (sceneEffect scenes env st)
       = runEffects scenes env' ((sceneEffect scenes env st)\<lparr>timers := timers st\<rparr>)
           (handleNext scenes (isRecording st) ((sceneEffect scenes env st)\<lparr>timers := timers st\<rparr>))"
  using sceneEffect_no_audio(1) [OF assms, of env] by (simp add: fire_def Let_def)

subsection \<open>One pending advance per scene\<close>

text \<open>
  The invariant of the event loop: while a scene is playing exactly one advance is
  pending, and none is pending otherwise.
\<close>

definition oneAdvance :: "Scene list \<Rightarrow> Player \<Rightarrow> bool" where
  "oneAdvance scenes st =
     (if isPlaying st \<and> currentSceneIndex st < length scenes
      then (let sc = scenes ! currentSceneIndex st
            in if truthy (audioUrl sc)
               then pendingAdvances st = [ByNarrationEnded]
                    \<or> pendingAdvances st = [ByTimeout (sceneDuration sc * 1000)]
               else pendingAdvances st = [ByTimeout 5000])
      else pendingAdvances st = [])"

lemma pendingAdvances_cong:
  "audio_paused (narrationRef a) = audio_paused (narrationRef b) \<Longrightarrow> timers a = timers b \<Longrightarrow>
   pendingAdvances a = pendingAdvances b"
  by (simp add: pendingAdvances_def)

lemma oneAdvance_cong:
  assumes "isPlaying a = isPlaying b" "currentSceneIndex a = currentSceneIndex b"
    and "pendingAdvances a = pendingAdvances b"
  shows "oneAdvance scenes a = oneAdvance scenes b"
  using assms by (simp add: oneAdvance_def)

lemma oneAdvance_entry:
  assumes "isPlaying st" "currentSceneIndex st < length scenes"
    and "pendingAdvances st = [entryAdvance (scenes ! currentSceneIndex st) env]"
  shows "oneAdvance scenes st"
  using assms by (simp add: oneAdvance_def entryAdvance_def Let_def split: if_splits)

lemma oneAdvance_idle:
  assumes "\<not> (isPlaying st \<and> currentSceneIndex st < length scenes)" "pendingAdvances st = []"
  shows "oneAdvance scenes st"
  using assms by (auto simp add: oneAdvance_def)

lemma oneAdvance_length: "oneAdvance scenes st \<Longrightarrow> length (pendingAdvances st) \<le> 1"
  by (auto simp add: oneAdvance_def Let_def split: if_splits)

lemma oneAdvance_playing: "oneAdvance scenes st \<Longrightarrow> pendingAdvances st \<noteq> [] \<Longrightarrow> isPlaying st"
  by (auto simp add: oneAdvance_def split: if_splits)

lemma runEffects_pending:
  assumes "pendingAdvances st = []"
  shows "pendingAdvances (runEffects scenes env old st) =
     (if (currentSceneIndex st \<noteq> currentSceneIndex old \<or> isPlaying st \<noteq> isPlaying old)
         \<and> isPlaying st \<and> currentSceneIndex st < length scenes
      then [entryAdvance (scenes ! currentSceneIndex st) env] else [])"
proof -
  from assms have q: "audio_paused (narrationRef st)" "nextTimers st = []"
    by (simp_all add: pendingAdvances_Nil)
  have c: "pendingAdvances (sceneCleanup st) = []"
    using q nextTimers_sceneCleanup [of st] by (simp add: pendingAdvances_Nil)
  have upd: "pendingAdvances (s\<lparr>endedListenerRecording := x\<rparr>) = pendingAdvances s" for s x
    by (simp add: pendingAdvances_def)
  show ?thesis
  proof (cases "currentSceneIndex st \<noteq> currentSceneIndex old \<or> isPlaying st \<noteq> isPlaying old")
    case False
    with assms show ?thesis by (simp add: runEffects_def Let_def)
  next
    case changed: True
    show ?thesis
    proof (cases "isPlaying st \<and> currentSceneIndex st < length scenes")
      case True
      then have "pendingAdvances (sceneEffect scenes env (sceneCleanup st))
          = [entryAdvance (scenes ! currentSceneIndex st) env]"
        using sceneEffect_pending [of "sceneCleanup st" scenes env] c by simp
      with changed True show ?thesis by (simp add: runEffects_def Let_def upd)
    next
      case False
      then have "sceneEffect scenes env (sceneCleanup st) = sceneCleanup st"
        by (intro sceneEffect_idle) simp
      with changed False c show ?thesis by (auto simp add: runEffects_def Let_def upd)
    qed
  qed
qed

lemma handleNext_pending:
  assumes "pendingAdvances st = []"
  shows "pendingAdvances (handleNext scenes c st) = []"
proof -
  from assms have q: "audio_paused (narrationRef st)" "nextTimers st = []"
    by (simp_all add: pendingAdvances_Nil)
  then show ?thesis
    by (simp add: pendingAdvances_Nil handleNext_narration nextTimers_def)
qed

lemma after_advance:
  assumes "pendingAdvances st = []" and "isPlaying st"
  shows "oneAdvance scenes (runEffects scenes env st (handleNext scenes c st))"
proof -
  let ?n = "handleNext scenes c st"
  let ?r = "runEffects scenes env st ?n"
  have p: "pendingAdvances ?n = []" using assms(1) by (rule handleNext_pending)
  show ?thesis
  proof (cases "currentSceneIndex st + 1 < length scenes")
    case True
    then have "currentSceneIndex ?n = currentSceneIndex st + 1" "isPlaying ?n"
      using assms(2) by (simp_all add: handleNext_index handleNext_isPlaying)
    then have "pendingAdvances ?r = [entryAdvance (scenes ! currentSceneIndex ?r) env]"
      "isPlaying ?r" "currentSceneIndex ?r < length scenes"
      using True by (simp_all add: runEffects_pending [OF p])
    then show ?thesis by (intro oneAdvance_entry)
  next
    case False
    then have "\<not> isPlaying ?n" by (simp add: handleNext_isPlaying)
    then have "pendingAdvances ?r = []" "\<not> isPlaying ?r"
      by (simp_all add: runEffects_pending [OF p])
    then show ?thesis by (intro oneAdvance_idle) simp_all
  qed
qed

lemma filter_remove_only:
  assumes "length (filter p xs) \<le> 1" "i < length xs" "p (xs ! i)"
  shows "filter p (take i xs @ drop (Suc i) xs) = []"
proof -
  have "xs = take i xs @ xs ! i # drop (Suc i) xs" using assms(2) by (rule id_take_nth_drop)
  then have "filter p xs = filter p (take i xs) @ xs ! i # filter p (drop (Suc i) xs)"
    using assms(3) by (metis filter.simps(2) filter_append)
  with assms(1) have "length (filter p (take i xs)) + length (filter p (drop (Suc i) xs)) = 0"
    by simp
  then show ?thesis by simp
qed

lemma filter_remove_other:
  assumes "i < length xs" "\<not> p (xs ! i)"
  shows "filter p (take i xs @ drop (Suc i) xs) = filter p xs"
proof -
  have "xs = take i xs @ xs ! i # drop (Suc i) xs" using assms(1) by (rule id_take_nth_drop)
  then have "filter p xs = filter p (take i xs) @ filter p (drop (Suc i) xs)"
    using assms(2) by (metis filter.simps(2) filter_append)
  then show ?thesis by simp
qed

lemma oneAdvance_fire:
  assumes inv: "oneAdvance scenes st" and en: "enabled ev st"
  shows "oneAdvance scenes (fire scenes env ev st)"
proof (cases ev)
  case (ClickStart r)
  with en have np: "\<not> isPlaying st" by (simp add: enabled_def)
  with inv have "pendingAdvances st = []" by (simp add: oneAdvance_def)
  then have p: "pendingAdvances (startPlayback scenes r env st) = []"
    using pendingAdvances_cong [of "startPlayback scenes r env st" st] by simp
  let ?r = "runEffects scenes env st (startPlayback scenes r env st)"
  show ?thesis
  proof (cases "0 < length scenes")
    case True
    with np have "pendingAdvances ?r = [entryAdvance (scenes ! currentSceneIndex ?r) env]"
      "isPlaying ?r" "currentSceneIndex ?r < length scenes"
      by (simp_all add: runEffects_pending [OF p])
    then have "oneAdvance scenes ?r" by (intro oneAdvance_entry)
    with ClickStart show ?thesis by (simp add: fire_def)
  next
    case False
    have "pendingAdvances ?r = []" "\<not> currentSceneIndex ?r < length scenes"
      using False runEffects_pending [OF p, of scenes env st] by simp_all
    then have "oneAdvance scenes ?r" by (intro oneAdvance_idle) simp_all
    with ClickStart show ?thesis by (simp add: fire_def)
  qed
next
  case NarrationEnded
  with en have playing: "\<not> audio_paused (narrationRef st)" by (simp add: enabled_def)
  then have ne: "pendingAdvances st \<noteq> []" by (simp add: pendingAdvances_def)
  with inv have ip: "isPlaying st" by (rule oneAdvance_playing)
  from oneAdvance_length [OF inv] playing have nt: "nextTimers st = []"
    by (simp add: pendingAdvances_alt)
  let ?s = "st\<lparr>narrationRef := (narrationRef st)\<lparr>audio_paused := True\<rparr>\<rparr>"
  have "pendingAdvances ?s = []" using nt by (simp add: pendingAdvances_Nil nextTimers_def)
  moreover have "isPlaying ?s" using ip by simp
  ultimately have "oneAdvance scenes
      (runEffects scenes env ?s (handleNext scenes (endedListenerRecording ?s) ?s))"
    by (rule after_advance)
  with NarrationEnded show ?thesis by (simp add: fire_def Let_def)
next
  case (TimerFired i)
  with en have i: "i < length (timers st)" by (simp add: enabled_def)
  let ?s = "st\<lparr>timers := take i (timers st) @ drop (Suc i) (timers st)\<rparr>"
  show ?thesis
  proof (cases "timer_callback (timers st ! i)")
    case (CallHandleNext c)
    then have ci: "callsHandleNext (timers st ! i)" by (simp add: callsHandleNext_def)
    with i have "timers st ! i \<in> set (nextTimers st)" by (simp add: nextTimers_def)
    then have ne: "pendingAdvances st \<noteq> []" by (auto simp add: pendingAdvances_alt)
    with inv have ip: "isPlaying st" by (rule oneAdvance_playing)
    from ne oneAdvance_length [OF inv] \<open>timers st ! i \<in> set (nextTimers st)\<close>
    have paused: "audio_paused (narrationRef st)" and one: "length (nextTimers st) \<le> 1"
      by (auto simp add: pendingAdvances_alt split: if_splits)
    from one have "filter callsHandleNext (take i (timers st) @ drop (Suc i) (timers st)) = []"
      unfolding nextTimers_def using i ci by (rule filter_remove_only)
    with paused have "pendingAdvances ?s = []"
      by (simp add: pendingAdvances_Nil nextTimers_def)
    moreover have "isPlaying ?s" using ip by simp
    ultimately have "oneAdvance scenes (runEffects scenes env ?s (handleNext scenes c ?s))"
      by (rule after_advance)
    with TimerFired CallHandleNext show ?thesis by (simp add: fire_def Let_def)
  next
    case ClearStatusMsg
    then have "\<not> callsHandleNext (timers st ! i)" by (simp add: callsHandleNext_def)
    with i have "filter callsHandleNext (take i (timers st) @ drop (Suc i) (timers st))
        = filter callsHandleNext (timers st)" by (rule filter_remove_other)
    then have "pendingAdvances (?s\<lparr>statusMsg := NoStatus\<rparr>) = pendingAdvances st"
      by (simp add: pendingAdvances_def)
    then have "oneAdvance scenes (?s\<lparr>statusMsg := NoStatus\<rparr>) = oneAdvance scenes st"
      by (intro oneAdvance_cong) simp_all
    with inv TimerFired ClearStatusMsg show ?thesis by (simp add: fire_def Let_def)
  qed
next
  case (DataAvailable b)
  have "oneAdvance scenes (ondataavailable b st) = oneAdvance scenes st"
    by (intro oneAdvance_cong) (simp_all add: ondataavailable_def pendingAdvances_def)
  with inv DataAvailable show ?thesis by (simp add: fire_def)
next
  case RecorderStopped
  have "oneAdvance scenes (fire scenes env RecorderStopped st) = oneAdvance scenes st"
    by (intro oneAdvance_cong)
      (simp_all add: fire_def Let_def onstopHandler_def pendingAdvances_def callsHandleNext_def
        split: option.split)
  with inv RecorderStopped show ?thesis by simp
next
  case AnimationFrame
  have "oneAdvance scenes (fire scenes env AnimationFrame st) = oneAdvance scenes st"
    by (intro oneAdvance_cong)
      (simp_all add: fire_def pendingAdvances_def split: sum.split)
  with inv AnimationFrame show ?thesis by simp
next
  case (ImageLoaded w h)
  have "oneAdvance scenes (fire scenes env (ImageLoaded w h) st) = oneAdvance scenes st"
    by (intro oneAdvance_cong) (simp_all add: fire_def pendingAdvances_def)
  with inv ImageLoaded show ?thesis by simp
qed

lemma reachable_oneAdvance: "reachable scenes st \<Longrightarrow> oneAdvance scenes st"
proof (induction rule: reachable.induct)
  case reachable_mounted
  show ?case by (simp add: oneAdvance_def mounted_def pendingAdvances_def)
next
  case (reachable_fire st ev env)
  then show ?case by (simp add: oneAdvance_fire)
qed

text \<open>
  Claim C4. In every reachable state that is playing a scene, exactly one advance is
  pending: the \<open>ended\<close> event of the narration that is playing, or else a single
  timeout, of the scene's duration (\<open>audioDuration || 5\<close> seconds) when the scene has
  narration audio that did not start, and of 5 seconds when it has none. A timeout is
  pending only while the narration is not playing.
\<close>

theorem exactly_one_advance_scheduled:
  assumes "reachable scenes st" and "isPlaying st" and "currentSceneIndex st < length scenes"
  shows
   "let sc = scenes ! currentSceneIndex st in
      length (pendingAdvances st) = 1
      \<and> (pendingAdvances st = [ByNarrationEnded]
           \<and> truthy (audioUrl sc) \<and> \<not> audio_paused (narrationRef st)
         \<or> pendingAdvances st = [ByTimeout (sceneDuration sc * 1000)]
           \<and> truthy (audioUrl sc) \<and> audio_paused (narrationRef st)
         \<or> pendingAdvances st = [ByTimeout 5000]
           \<and> \<not> truthy (audioUrl sc) \<and> audio_paused (narrationRef st))"
proof -
  from assms(1) have "oneAdvance scenes st" by (rule reachable_oneAdvance)
  with assms(2,3) show ?thesis
    by (auto simp add: oneAdvance_def Let_def pendingAdvances_alt split: if_splits)
qed

theorem exactly_one_advance_scheduled_witness:
  "reachable [narratedScene, silentScene] previewFirst \<and> isPlaying previewFirst
   \<and> currentSceneIndex previewFirst < length [narratedScene, silentScene]
   \<and> pendingAdvances previewFirst = [ByNarrationEnded]
   \<and> reachable [narratedScene, silentScene] previewSecond \<and> isPlaying previewSecond
   \<and> currentSceneIndex previewSecond < length [narratedScene, silentScene]
   \<and> pendingAdvances previewSecond = [ByTimeout 5000]
   \<and> reachable [narratedScene, silentScene] previewMuted \<and> isPlaying previewMuted
   \<and> currentSceneIndex previewMuted < length [narratedScene, silentScene]
   \<and> pendingAdvances previewMuted = [ByTimeout 4000]"
proof -
  have i: "currentSceneIndex previewFirst < length [narratedScene, silentScene]"
    "currentSceneIndex previewSecond < length [narratedScene, silentScene]"
    "currentSceneIndex previewMuted < length [narratedScene, silentScene]"
    by (simp_all add: previewFirst_fields previewSecond_fields previewMuted_fields)
  have a: "truthy (audioUrl narratedScene)" "\<not> truthy (audioUrl silentScene)"
    "sceneDuration narratedScene = 4"
    by (simp_all add: truthy_def narratedScene_def silentScene_def sceneDuration_def)
  show ?thesis
    using exactly_one_advance_scheduled [OF reachable_previewFirst previewFirst_fields(2) i(1)]
      exactly_one_advance_scheduled [OF reachable_previewSecond previewSecond_fields(2) i(2)]
      exactly_one_advance_scheduled [OF reachable_previewMuted previewMuted_fields(2) i(3)]
      reachable_previewFirst reachable_previewSecond reachable_previewMuted
    by (simp add: previewFirst_fields previewSecond_fields previewMuted_fields a Let_def)
qed

subsection \<open>A scene without narration audio\<close>

text \<open>
  Claim C3. Entering a scene without \<open>audioUrl\<close> (absent or empty) leaves the
  narration element alone and schedules one timer of 5000 ms that calls \<open>handleNext\<close>,
  whatever the scene's image and clip and whatever the state of the media elements;
  when nothing else was pending it is the only pending advance. When it fires, below
  the last scene the index grows by one and the next scene is entered (it is playing and
  its start stamp is the time of the firing); at the last scene playback finishes: it is
  no longer playing, music, narration and clip are paused, the frame request is
  cancelled and no advance is left pending.
\<close>

theorem silent_scene_fixed_timer:
  assumes "isPlaying st" and "currentSceneIndex st < length scenes"
    and "\<not> truthy (audioUrl (scenes ! currentSceneIndex st))"
  shows
   "let entered = sceneEffect scenes env st;
        fired = fire scenes env' (TimerFired (length (timers st))) entered
    in timers entered
         = timers st @ [\<lparr>timer_callback = CallHandleNext (isRecording st),
                         timer_delay = 5000, timer_owned = True\<rparr>]
       \<and> narrationRef entered = narrationRef st
       \<and> (pendingAdvances st = [] \<longrightarrow> pendingAdvances entered = [ByTimeout 5000])
       \<and> enabled (TimerFired (length (timers st))) entered
       \<and> (currentSceneIndex st + 1 < length scenes \<longrightarrow>
            currentSceneIndex fired = currentSceneIndex st + 1 \<and> isPlaying fired
            \<and> sceneStartTimeRef fired = env_now env')
       \<and> (currentSceneIndex st + 1 = length scenes \<longrightarrow>
            currentSceneIndex fired = currentSceneIndex st \<and> \<not> isPlaying fired
            \<and> audio_paused (bgmRef fired) \<and> audio_paused (narrationRef fired)
            \<and> video_paused (videoRef fired) \<and> \<not> requestRef fired
            \<and> (pendingAdvances st = [] \<longrightarrow> pendingAdvances fired = []))"
proof -
  define entered where "entered = sceneEffect scenes env st"
  define idle where "idle = entered\<lparr>timers := timers st\<rparr>"
  define fired where "fired = fire scenes env' (TimerFired (length (timers st))) entered"
  note e = sceneEffect_no_audio [OF assms, of env]
  have a: "timers entered = timers st @ [\<lparr>timer_callback = CallHandleNext (isRecording st),
                         timer_delay = 5000, timer_owned = True\<rparr>]"
    and b: "narrationRef entered = narrationRef st"
    using e by (simp_all add: entered_def)
  have c: "pendingAdvances st = [] \<longrightarrow> pendingAdvances entered = [ByTimeout 5000]"
    using sceneEffect_pending [OF assms(1,2), of env] assms(3)
    by (simp add: entryAdvance_def entered_def)
  have d: "enabled (TimerFired (length (timers st))) entered" by (simp add: enabled_def a)
  have f: "fired = runEffects scenes env' idle (handleNext scenes (isRecording st) idle)"
    unfolding fired_def entered_def idle_def using assms by (rule timer_fired_after_entry)
  have i: "isPlaying idle" "currentSceneIndex idle = currentSceneIndex st"
    "timers idle = timers st" "narrationRef idle = narrationRef st"
    using assms(1) b by (simp_all add: idle_def entered_def)
  have g: "currentSceneIndex fired = currentSceneIndex st + 1 \<and> isPlaying fired
            \<and> sceneStartTimeRef fired = env_now env'"
    if "currentSceneIndex st + 1 < length scenes"
  proof -
    from that i have n: "handleNext scenes (isRecording st) idle
        = idle\<lparr>currentSceneIndex := currentSceneIndex st + 1\<rparr>"
      by (simp add: handleNext_def Let_def)
    have "sceneStartTimeRef (sceneEffect scenes env'
        (sceneCleanup (idle\<lparr>currentSceneIndex := currentSceneIndex st + 1\<rparr>))) = env_now env'"
      using that i by (intro sceneEffect_startTime) simp_all
    with that i show ?thesis by (simp add: f n runEffects_def Let_def)
  qed
  have h: "currentSceneIndex fired = currentSceneIndex st \<and> \<not> isPlaying fired
            \<and> audio_paused (bgmRef fired) \<and> audio_paused (narrationRef fired)
            \<and> video_paused (videoRef fired) \<and> \<not> requestRef fired
            \<and> (pendingAdvances st = [] \<longrightarrow> pendingAdvances fired = [])"
    if "currentSceneIndex st + 1 = length scenes"
  proof -
    let ?n = "handleNext scenes (isRecording st) idle"
    from that i have np: "\<not> isPlaying ?n" "currentSceneIndex ?n = currentSceneIndex st"
      by (simp_all add: handleNext_isPlaying handleNext_index)
    then have r: "fired = sceneCleanup ?n"
      using i by (simp add: f runEffects_def Let_def sceneEffect_idle)
    have fin: "audio_paused (bgmRef ?n)" "audio_paused (narrationRef ?n)"
      "video_paused (videoRef ?n)" "\<not> requestRef ?n"
      using that i
      by (simp_all add: handleNext_def finishPlayback_def stopRecording_def Let_def
          split: option.split)
    have p: "pendingAdvances st = [] \<longrightarrow> pendingAdvances fired = []"
    proof
      assume "pendingAdvances st = []"
      then have "pendingAdvances idle = []"
        using pendingAdvances_cong [of idle st] i by simp
      then have "pendingAdvances ?n = []" by (rule handleNext_pending)
      then show "pendingAdvances fired = []"
        using nextTimers_sceneCleanup [of ?n] by (simp add: r pendingAdvances_Nil)
    qed
    from np fin p show ?thesis by (simp add: r sceneCleanup_def)
  qed
  from a b c d g h show ?thesis
    unfolding Let_def entered_def [symmetric] fired_def [symmetric] by blast
qed

definition silentFirst :: Player where
  "silentFirst = startPlayback [silentScene, narratedScene] False okEnv mounted"

theorem silent_scene_fixed_timer_witness:
  "isPlaying silentEntry \<and> currentSceneIndex silentEntry < length [silentScene]
   \<and> \<not> truthy (audioUrl ([silentScene] ! currentSceneIndex silentEntry))
   \<and> pendingAdvances silentEntry = []
   \<and> pendingAdvances (sceneEffect [silentScene] okEnv silentEntry) = [ByTimeout 5000]
   \<and> currentSceneIndex silentEntry + 1 = length [silentScene]
   \<and> \<not> isPlaying (fire [silentScene] okEnv (TimerFired (length (timers silentEntry)))
         (sceneEffect [silentScene] okEnv silentEntry))
   \<and> pendingAdvances (fire [silentScene] okEnv (TimerFired (length (timers silentEntry)))
         (sceneEffect [silentScene] okEnv silentEntry)) = []
   \<and> isPlaying silentFirst \<and> currentSceneIndex silentFirst < length [silentScene, narratedScene]
   \<and> \<not> truthy (audioUrl ([silentScene, narratedScene] ! currentSceneIndex silentFirst))
   \<and> currentSceneIndex silentFirst + 1 < length [silentScene, narratedScene]
   \<and> currentSceneIndex
        (fire [silentScene, narratedScene] okEnv (TimerFired (length (timers silentFirst)))
           (sceneEffect [silentScene, narratedScene] okEnv silentFirst)) = 1
   \<and> isPlaying
        (fire [silentScene, narratedScene] okEnv (TimerFired (length (timers silentFirst)))
           (sceneEffect [silentScene, narratedScene] okEnv silentFirst))"
proof -
  have h1: "isPlaying silentEntry" "currentSceneIndex silentEntry < length [silentScene]"
    "\<not> truthy (audioUrl ([silentScene] ! currentSceneIndex silentEntry))"
    by (simp_all add: silentEntry_def truthy_def silentScene_def)
  have h2: "isPlaying silentFirst"
    "currentSceneIndex silentFirst < length [silentScene, narratedScene]"
    "\<not> truthy (audioUrl ([silentScene, narratedScene] ! currentSceneIndex silentFirst))"
    by (simp_all add: silentFirst_def truthy_def silentScene_def)
  have f: "currentSceneIndex silentEntry = 0" "currentSceneIndex silentFirst = 0"
    "pendingAdvances silentEntry = []" "pendingAdvances silentFirst = []"
    by (simp_all add: silentEntry_def silentFirst_def startPlayback_def startLoop_def
        mounted_def pendingAdvances_def)
  show ?thesis
    using h1 h2 silent_scene_fixed_timer [OF h1, of okEnv okEnv]
      silent_scene_fixed_timer [OF h2, of okEnv okEnv]
    by (simp add: f Let_def)
qed

subsection \<open>Advance and finish\<close>

text \<open>
  \<open>handleNext\<close> spelled out: below the last scene the index grows by one; at the last
  scene the music, the narration and the clip are paused, the frame request is
  cancelled, and the recorder is stopped if the closure that runs saw
  \<open>isRecording = true\<close>.
\<close>

lemma advance_or_finish:
  "handleNext scenes captured st =
     (if currentSceneIndex st + 1 < length scenes
      then st\<lparr>currentSceneIndex := currentSceneIndex st + 1\<rparr>
      else (let fin = st\<lparr>isPlaying := False,
                          bgmRef := (bgmRef st)\<lparr>audio_paused := True\<rparr>,
                          narrationRef := (narrationRef st)\<lparr>audio_paused := True\<rparr>,
                          videoRef := (videoRef st)\<lparr>video_paused := True\<rparr>,
                          requestRef := False\<rparr>
            in if captured then stopRecording fin else fin))"
  by (simp add: handleNext_def finishPlayback_def Let_def stopRecording_def split: option.split)

text \<open>A recording of a single narrated scene, and the same run after the narration ended.\<close>

definition soloRecording :: Player where
  "soloRecording = fire [narratedScene] okEnv (ClickStart True) mounted"

definition soloEnded :: Player where
  "soloEnded = fire [narratedScene] okEnv NarrationEnded soloRecording"

text \<open>
  Claim C5: an advance moves to the next scene and enters it, or at the last scene
  finishes the session and stops an active recording. The last part fails on a
  recording of a single narrated scene. The \<open>ended\<close> listener is
  registered again only when \<open>currentSceneIndex\<close> changes (line 227); starting at index 0
  does not change it, so the listener still calls the \<open>handleNext\<close> of the first
  render, whose \<open>finishPlayback\<close> reads \<open>isRecording = false\<close>. When the narration ends,
  playback finishes (music and narration paused, frame request cancelled) but the
  recorder keeps recording and no file is produced.
\<close>

theorem single_scene_recording_not_stopped:
  "enabled (ClickStart True) mounted
   \<and> isPlaying soloRecording \<and> isRecording soloRecording
   \<and> map_option rec_state (mediaRecorderRef soloRecording) = Some Recording
   \<and> enabled NarrationEnded soloRecording
   \<and> endedListenerRecording soloRecording = False
   \<and> currentSceneIndex soloEnded = 0 \<and> \<not> isPlaying soloEnded
   \<and> audio_paused (bgmRef soloEnded) \<and> audio_paused (narrationRef soloEnded)
   \<and> \<not> requestRef soloEnded
   \<and> isRecording soloEnded
   \<and> map_option rec_state (mediaRecorderRef soloEnded) = Some Recording
   \<and> \<not> enabled RecorderStopped soloEnded
   \<and> downloads soloEnded = []"
  by (simp add: soloEnded_def soloRecording_def run_defs)

text \<open>
  The timer path of the same session does stop the recorder: its closure is taken by
  the scene effect, which runs again when \<open>isPlaying\<close> changes.
\<close>

lemma timer_path_stops_recording:
  "map_option rec_state
     (mediaRecorderRef
        (fire [silentScene] okEnv (TimerFired 0)
           (fire [silentScene] okEnv (ClickStart True) mounted)))
     = Some Inactive"
  by (simp add: run_defs)

text \<open>
  So does the \<open>ended\<close> path once the index has changed: on two narrated scenes the
  listener of the second scene is registered in a render with \<open>isRecording = true\<close>.
\<close>

lemma second_scene_end_stops_recording:
  "map_option rec_state
     (mediaRecorderRef
        (fire [narratedScene, narratedScene] okEnv NarrationEnded
           (fire [narratedScene, narratedScene] okEnv NarrationEnded
              (fire [narratedScene, narratedScene] okEnv (ClickStart True) mounted))))
     = Some Inactive"
  by (simp add: run_defs)

subsection \<open>Encoder construction failure\<close>

text \<open>An environment in which the recorder cannot be built, and a recording started in it.\<close>

definition noEncoderEnv :: Env where
  "noEncoderEnv = okEnv\<lparr>recorderCtorOk := False\<rparr>"

definition failedRecordingStart :: Player where
  "failedRecordingStart = fire [narratedScene, silentScene] noEncoderEnv (ClickStart True) mounted"

text \<open>
  Claim C6: a failure to build the encoder aborts the recording only, and the playback
  that was started goes on unaffected. It fails when \<open>new MediaRecorder\<close> throws: the
  handler alerts, resets
  \<open>isRecording\<close> and returns (line 312) before the frame loop and the background music
  are started, while \<open>isPlaying\<close> stays true and the first scene is entered. A preview
  and a successful recording start on the same scenes do start both.
\<close>

theorem encoder_failure_leaves_playback_without_loop:
  "enabled (ClickStart True) mounted
   \<and> alerts failedRecordingStart = 1 \<and> \<not> isRecording failedRecordingStart
   \<and> mediaRecorderRef failedRecordingStart = None
   \<and> isPlaying failedRecordingStart \<and> currentSceneIndex failedRecordingStart = 0
   \<and> \<not> audio_paused (narrationRef failedRecordingStart)
   \<and> \<not> requestRef failedRecordingStart
   \<and> audio_paused (bgmRef failedRecordingStart)
   \<and> requestRef previewFirst \<and> \<not> audio_paused (bgmRef previewFirst)
   \<and> requestRef recordingFirst \<and> \<not> audio_paused (bgmRef recordingFirst)"
  by (simp add: failedRecordingStart_def noEncoderEnv_def previewFirst_def recordingFirst_def
      run_defs)

subsection \<open>The render loop keeps the scene of the click\<close>

text \<open>
  A preview of two scenes with images, of 4 and of 10 seconds: the first narration ends
  at time 5000, the second image loads, and a frame is drawn at time 7000.
\<close>

definition slowScene :: Scene where
  "slowScene = \<lparr>scene_id = [51], narration = [79, 109], visualPrompt = [],
     imageUrl = Some ''blob:image2'', videoUrl = None, audioUrl = Some ''blob:audio2'',
     audioDuration = Some 10\<rparr>"

definition zoomScenes :: "Scene list" where
  "zoomScenes = [narratedScene, slowScene]"

definition zoomSecond :: Player where
  "zoomSecond =
     fire zoomScenes okEnv (ImageLoaded 640 480)
       (fire zoomScenes (okEnv\<lparr>env_now := 5000\<rparr>) NarrationEnded
          (fire zoomScenes okEnv (ClickStart False) mounted))"

definition zoomTick :: Player where
  "zoomTick = fire zoomScenes (okEnv\<lparr>env_now := 7000\<rparr>) AnimationFrame zoomSecond"

lemma reachable_zoomSecond: "reachable zoomScenes zoomSecond"
  unfolding zoomSecond_def
  by (intro reachable_fire reachable_mounted) (simp_all add: zoomScenes_def slowScene_def run_defs)

text \<open>
  Claim C8: the zoom of a still image runs from 1.0 to 1.15 over the total duration of
  the scene. It fails from the second scene on. The frame requested by \<open>startPlayback\<close>
  runs the \<open>renderFrame\<close> of the render before the click, which requests itself again,
  so the loop reads the duration of the scene that was current at the click. Two
  seconds into the scene of 10 seconds the zoom drawn is 1.075, the value for the first
  scene of 4 seconds, where the claim gives 1.03 (an image 1318.4 wide, not 1376). The
  same closure holds \<open>isPlaying = false\<close>.
\<close>

theorem later_scene_zooms_over_first_duration:
  "reachable zoomScenes zoomSecond \<and> enabled AnimationFrame zoomSecond
   \<and> isPlaying zoomSecond \<and> currentScene zoomScenes zoomSecond = Some slowScene
   \<and> sceneDuration slowScene = 10 \<and> sceneStartTimeRef zoomSecond = 5000
   \<and> loopScene zoomSecond = Some narratedScene \<and> sceneDuration narratedScene = 4
   \<and> kenBurnsScale (currentScene zoomScenes zoomSecond) 7000 (sceneStartTimeRef zoomSecond) = 1.03
   \<and> kenBurnsScale (loopScene zoomSecond) 7000 (sceneStartTimeRef zoomSecond) = 1.075
   \<and> canvasOps zoomTick
        = [FillRect ''#000'' 0 0 1280 720,
           DrawImage (ImageSource (imgRef zoomSecond)) (- 48) (- 156) 1376 1032]
   \<and> naturalWidth (imgRef zoomSecond) * (max (1280 / naturalWidth (imgRef zoomSecond))
          (720 / naturalHeight (imgRef zoomSecond)) * 1.03) = 1318.4
   \<and> \<not> loopPlaying zoomSecond"
proof -
  have z: "isPlaying zoomSecond" "currentSceneIndex zoomSecond = 1"
    "sceneStartTimeRef zoomSecond = 5000" "loopScene zoomSecond = Some narratedScene"
    "\<not> loopPlaying zoomSecond" "requestRef zoomSecond"
    "imgRef zoomSecond = \<lparr>img_src = Some ''blob:image2'', img_complete = True,
        naturalWidth = 640, naturalHeight = 480, img_broken = False\<rparr>"
    "videoRef zoomSecond = \<lparr>video_src = None, video_readyState = 0, video_paused = True,
        videoWidth = 0, videoHeight = 0\<rparr>"
    "canvasRef zoomSecond = Some \<lparr>canvas_width = 1280, canvas_height = 720, canvas_has2d = True\<rparr>"
    by (simp_all add: zoomSecond_def zoomScenes_def slowScene_def currentScene_def run_defs)
  have d: "sceneDuration slowScene = 10" "sceneDuration narratedScene = 4"
    by (simp_all add: sceneDuration_def slowScene_def narratedScene_def)
  have k: "kenBurnsScale (Some slowScene) 7000 5000 = 1.03"
    "kenBurnsScale (Some narratedScene) 7000 5000 = 1.075"
    by (simp_all add: kenBurnsScale_def d Let_def)
  have c: "currentScene zoomScenes zoomSecond = Some slowScene"
    by (simp add: currentScene_def z zoomScenes_def)
  have t: "canvasOps zoomTick
        = [FillRect ''#000'' 0 0 1280 720,
           DrawImage (ImageSource (imgRef zoomSecond)) (- 48) (- 156) 1376 1032]"
    by (simp add: zoomTick_def fire_def tick_def z renderFrame_def drawImageProp_def
        ctx_drawImage_def subtitleOps_def k Let_def okEnv_def)
  show ?thesis
    using reachable_zoomSecond by (simp add: z d k c t enabled_def)
qed

end
